theory Spec2Isabelle
  imports Main "HOL-Library.Sublist"
begin

section \<open>The gNMI reverse client: \<^verbatim>\<open>gnmireverse/client/main.go\<close>\<close>

subsection \<open>Errors\<close>

text \<open>
  A Go \<^verbatim>\<open>error\<close> value. \<open>Errorf format args\<close> is the value of
  \<^verbatim>\<open>fmt.Errorf(format, args...)\<close>; \<open>Canceled\<close> is \<^verbatim>\<open>context.Canceled\<close>;
  \<open>EOF\<close> is \<^verbatim>\<open>io.EOF\<close> (what \<^verbatim>\<open>Recv\<close> returns when the peer closes the stream
  cleanly); \<open>Underlying s\<close> is any other error produced by a library call.
  A possibly-nil \<^verbatim>\<open>error\<close> is an \<open>error option\<close>, \<open>None\<close> being \<^verbatim>\<open>nil\<close>.
\<close>

datatype error = EOF | Canceled | Underlying string | Errorf string "error list"

subsection \<open>The credential builder \<^verbatim>\<open>newTLSConfig\<close>\<close>

text \<open>
  The operating system and the libraries the builder and \<^verbatim>\<open>main\<close> call:
  \<^verbatim>\<open>ioutil.ReadFile\<close>, the certificates \<^verbatim>\<open>x509.CertPool.AppendCertsFromPEM\<close>
  finds in a byte string, \<^verbatim>\<open>tls.LoadX509KeyPair\<close> and \<^verbatim>\<open>grpc.Dial\<close>.
  \<open>'c\<close> is an X.509 certificate, \<open>'k\<close> a \<^verbatim>\<open>tls.Certificate\<close>.
\<close>

record ('c, 'k) tls_Config =
  InsecureSkipVerify :: bool
  RootCAs :: "'c list option"
  Certificates :: "'k list"

datatype ('c, 'k) TransportCredentials = NewTLS "('c, 'k) tls_Config"

datatype ('c, 'k) DialOption =
    WithInsecure
  | WithTransportCredentials "('c, 'k) TransportCredentials"

record ('c, 'k) sys =
  ReadFile :: "string \<Rightarrow> error + string"
  PEMCerts :: "string \<Rightarrow> 'c list"
  LoadX509KeyPair :: "string \<Rightarrow> string \<Rightarrow> error + 'k"
  Dial :: "string \<Rightarrow> ('c, 'k) DialOption \<Rightarrow> error option"

text \<open>The calls that leave the process, in the order they are made.\<close>

datatype io =
    IO_ReadFile string
  | IO_LoadX509KeyPair string string
  | IO_Dial string

text \<open>\<^verbatim>\<open>tls.Config{}\<close>: verification on, the host's root CA set, no client certificate.\<close>

definition tls_Config_zero :: "('c, 'k) tls_Config" where
  "tls_Config_zero = \<lparr>InsecureSkipVerify = False, RootCAs = None, Certificates = []\<rparr>"

text \<open>
  \<^verbatim>\<open>cp.AppendCertsFromPEM(b)\<close>: adds the certificates found in \<open>b\<close> to the pool and
  reports whether there was any.
\<close>

definition AppendCertsFromPEM :: "('c, 'k) sys \<Rightarrow> 'c list \<Rightarrow> string \<Rightarrow> 'c list \<times> bool" where
  "AppendCertsFromPEM os cp b = (cp @ PEMCerts os b, PEMCerts os b \<noteq> [])"

text \<open>Lines 57 to 70: the server-verification part of the configuration.\<close>

definition tls_roots ::
  "('c, 'k) sys \<Rightarrow> bool \<Rightarrow> string \<Rightarrow> ('c, 'k) tls_Config \<Rightarrow> (error + ('c, 'k) tls_Config) \<times> io list" where
  "tls_roots os skipVerify caFile tlsConfig =
     (if skipVerify then (Inr (tlsConfig\<lparr>InsecureSkipVerify := True\<rparr>), [])
      else if caFile \<noteq> [] then
        (case ReadFile os caFile of
           Inl err \<Rightarrow> (Inl err, [IO_ReadFile caFile])
         | Inr b \<Rightarrow>
             (case AppendCertsFromPEM os [] b of
                (cp, ok) \<Rightarrow>
                  if \<not> ok then
                    (Inl (Errorf ''credentials: failed to append certificates'' []),
                     [IO_ReadFile caFile])
                  else (Inr (tlsConfig\<lparr>RootCAs := Some cp\<rparr>), [IO_ReadFile caFile])))
      else (Inr tlsConfig, []))"

text \<open>Lines 71 to 80: the client-certificate part of the configuration.\<close>

definition tls_client_cert ::
  "('c, 'k) sys \<Rightarrow> string \<Rightarrow> string \<Rightarrow> ('c, 'k) tls_Config \<Rightarrow> (error + ('c, 'k) tls_Config) \<times> io list" where
  "tls_client_cert os certFile keyFile tlsConfig =
     (if certFile \<noteq> [] then
        (if keyFile = [] then
           (Inl (Errorf ''please provide both -collector_certfile and -collector_keyfile'' []), [])
         else
           (case LoadX509KeyPair os certFile keyFile of
              Inl err \<Rightarrow> (Inl err, [IO_LoadX509KeyPair certFile keyFile])
            | Inr cert \<Rightarrow>
                (Inr (tlsConfig\<lparr>Certificates := [cert]\<rparr>), [IO_LoadX509KeyPair certFile keyFile])))
      else (Inr tlsConfig, []))"

text \<open>
  \<^verbatim>\<open>newTLSConfig\<close> returns the dial option or the error, together with the calls it
  made. An early \<^verbatim>\<open>return nil, err\<close> is the \<open>Inl\<close> branch.
\<close>

definition newTLSConfig ::
  "('c, 'k) sys \<Rightarrow> bool \<Rightarrow> bool \<Rightarrow> string \<Rightarrow> string \<Rightarrow> string
     \<Rightarrow> (error + ('c, 'k) DialOption) \<times> io list" where
  "newTLSConfig os useTLS skipVerify certFile keyFile caFile =
     (if \<not> useTLS then (Inr WithInsecure, [])
      else
        (case tls_roots os skipVerify caFile tls_Config_zero of
           (Inl err, io1) \<Rightarrow> (Inl err, io1)
         | (Inr tlsConfig, io1) \<Rightarrow>
             (case tls_client_cert os certFile keyFile tlsConfig of
                (Inl err, io2) \<Rightarrow> (Inl err, io1 @ io2)
              | (Inr tlsConfig', io2) \<Rightarrow>
                  (Inr (WithTransportCredentials (NewTLS tlsConfig')), io1 @ io2))))"

subsection \<open>Start-up: lines 85 to 125 of \<^verbatim>\<open>main\<close>\<close>

text \<open>
  The command-line flags after \<^verbatim>\<open>flag.Parse()\<close>, named after the flags.
  \<open>flag_subscribe\<close> is \<^verbatim>\<open>paths.p\<close>.
\<close>

type_synonym gnmi_PathElem = "string \<times> (string \<times> string) list"

record gnmi_Path =
  Origin :: string
  Elem :: "gnmi_PathElem list"
  Target :: string

record flags =
  flag_target_addr :: string
  flag_collector_addr :: string
  flag_target_value :: string
  flag_subscribe :: "gnmi_Path list"
  flag_username :: string
  flag_password :: string
  flag_source_addr :: string
  flag_collector_certfile :: string
  flag_collector_keyfile :: string
  flag_collector_cafile :: string
  flag_collector_tls :: bool
  flag_collector_tls_skipverify :: bool

text \<open>
  \<^verbatim>\<open>multiPath.Set\<close>: each occurrence of \<^verbatim>\<open>-subscribe\<close> appends the parsed path.
  The path parser \<^verbatim>\<open>gnmilib.ParseGNMIElements(gnmilib.SplitPath(s))\<close> is a parameter.
\<close>

definition multiPath_Set ::
  "(string \<Rightarrow> error + gnmi_Path) \<Rightarrow> gnmi_Path list \<Rightarrow> string \<Rightarrow> gnmi_Path list \<times> error option" where
  "multiPath_Set parse p s =
     (case parse s of Inl err \<Rightarrow> (p, Some err) | Inr gnmiPath \<Rightarrow> (p @ [gnmiPath], None))"

text \<open>
  \<^verbatim>\<open>glog.Fatal(err)\<close> and \<^verbatim>\<open>glog.Fatalf(format, addr, err)\<close>: the process logs and exits.
\<close>

datatype fatal = Fatal error | Fatalf string string error

text \<open>
  The start-up sequence returns the fatal exit, if any, and the calls made up to there.
\<close>

definition startup :: "('c, 'k) sys \<Rightarrow> flags \<Rightarrow> fatal option \<times> io list" where
  "startup os fl =
     (case newTLSConfig os (flag_collector_tls fl) (flag_collector_tls_skipverify fl)
             (flag_collector_certfile fl) (flag_collector_keyfile fl) (flag_collector_cafile fl) of
        (Inl err, io1) \<Rightarrow> (Some (Fatal err), io1)
      | (Inr tlsDialOption, io1) \<Rightarrow>
          (case Dial os (flag_collector_addr fl) tlsDialOption of
             Some err \<Rightarrow>
               (Some (Fatalf ''error dialing destination %q: %s'' (flag_collector_addr fl) err),
                io1 @ [IO_Dial (flag_collector_addr fl)])
           | None \<Rightarrow>
               (case Dial os (flag_target_addr fl) WithInsecure of
                  Some err \<Rightarrow>
                    (Some (Fatalf ''error dialing target %q: %s'' (flag_target_addr fl) err),
                     io1 @ [IO_Dial (flag_collector_addr fl), IO_Dial (flag_target_addr fl)])
                | None \<Rightarrow>
                    (None, io1 @ [IO_Dial (flag_collector_addr fl), IO_Dial (flag_target_addr fl)]))))"

subsection \<open>The subscription request: lines 170 to 186 of \<^verbatim>\<open>subscribe\<close>\<close>

text \<open>
  The gNMI messages, with the fields the client sets; every other field keeps its zero
  value. \<open>Prefix\<close> is a pointer, \<open>None\<close> being \<^verbatim>\<open>nil\<close>.
\<close>

datatype gnmi_SubscriptionMode = TARGET_DEFINED | ON_CHANGE | SAMPLE

record gnmi_Subscription =
  Path :: gnmi_Path
  Mode :: gnmi_SubscriptionMode

record gnmi_SubscriptionList =
  Prefix :: "gnmi_Path option"
  Subscription :: "gnmi_Subscription list"

datatype gnmi_SubscribeRequest =
    SubscribeRequest_Subscribe gnmi_SubscriptionList
  | SubscribeRequest_Poll

text \<open>\<^verbatim>\<open>&gnmi.Path{Target: target}\<close>.\<close>

definition Path_with_Target :: "string \<Rightarrow> gnmi_Path" where
  "Path_with_Target t = \<lparr>Origin = [], Elem = [], Target = t\<rparr>"

text \<open>
  The loop of lines 174 to 181, \<open>subs\<close> being \<^verbatim>\<open>subList.Subscription\<close> so far.
\<close>

fun append_subscriptions :: "gnmi_Subscription list \<Rightarrow> gnmi_Path list \<Rightarrow> gnmi_Subscription list" where
  "append_subscriptions subs [] = subs"
| "append_subscriptions subs (p # ps) =
     append_subscriptions (subs @ [\<lparr>Path = p, Mode = TARGET_DEFINED\<rparr>]) ps"

definition subscribe_request :: "string \<Rightarrow> gnmi_Path list \<Rightarrow> gnmi_SubscribeRequest" where
  "subscribe_request target paths =
     SubscribeRequest_Subscribe
       \<lparr>Prefix = Some (Path_with_Target target),
        Subscription = append_subscriptions [] paths\<rparr>"

subsection \<open>Call contexts and metadata: lines 188 to 194 of \<^verbatim>\<open>subscribe\<close>\<close>

text \<open>
  \<^verbatim>\<open>metadata.MD\<close> is a map from keys to lists of values. \<^verbatim>\<open>metadata.Pairs\<close> appends
  each value to the list of its key, from left to right (it lower-cases the keys, which
  here are the lower-case literals \<^verbatim>\<open>username\<close> and \<^verbatim>\<open>password\<close>).
\<close>

type_synonym MD = "string \<rightharpoonup> string list"

fun Pairs_from :: "MD \<Rightarrow> string list \<Rightarrow> MD" where
  "Pairs_from md (k # v # kv) =
     Pairs_from (md(k \<mapsto> (case md k of None \<Rightarrow> [v] | Some vs \<Rightarrow> vs @ [v]))) kv"
| "Pairs_from md kv = md"

definition Pairs :: "string list \<Rightarrow> MD" where
  "Pairs kv = Pairs_from Map.empty kv"

text \<open>
  What a call context carries besides the cancellation signal of the errgroup, which
  every derived context shares: the outgoing metadata, if any.
\<close>

record call_ctx =
  OutgoingMD :: "MD option"

definition Background :: call_ctx where
  "Background = \<lparr>OutgoingMD = None\<rparr>"

definition NewOutgoingContext :: "call_ctx \<Rightarrow> MD \<Rightarrow> call_ctx" where
  "NewOutgoingContext ctx md = ctx\<lparr>OutgoingMD := Some md\<rparr>"

text \<open>The context \<^verbatim>\<open>subscribe\<close> opens its stream with.\<close>

definition subscribe_ctx :: "call_ctx \<Rightarrow> string \<Rightarrow> string \<Rightarrow> call_ctx" where
  "subscribe_ctx ctx username password =
     (if username \<noteq> [] then
        NewOutgoingContext ctx (Pairs [''username'', username, ''password'', password])
      else ctx)"

subsection \<open>One retry iteration: \<^verbatim>\<open>publish\<close> and \<^verbatim>\<open>subscribe\<close> under one errgroup\<close>

text \<open>
  The two goroutines of an iteration run interleaved. Each is at one of its blocking
  calls, holding the message it has in hand, or has returned:
  \<^item> \<^verbatim>\<open>publish\<close>: before \<^verbatim>\<open>client.Publish(ctx)\<close> (line 151), at the
    \<^verbatim>\<open>select\<close> (line 156), before \<^verbatim>\<open>stream.Send(response)\<close> (line 160), returned;
  \<^item> \<^verbatim>\<open>subscribe\<close>: before \<^verbatim>\<open>client.Subscribe(ctx)\<close> (line 195), before
    \<^verbatim>\<open>stream.Send(request)\<close> (line 199), before \<^verbatim>\<open>stream.Recv()\<close> (line 204),
    at the \<^verbatim>\<open>select\<close> (line 208), returned.
  \<open>'m\<close> is a \<^verbatim>\<open>*gnmi.SubscribeResponse\<close>, which neither function looks into.
\<close>

datatype 'm pub_pc = P_Open | P_Select | P_Send 'm | P_Ret "error option"

datatype 'm sub_pc = S_Open | S_SendReq | S_Recv | S_Select 'm | S_Ret "error option"

text \<open>
  What a goroutine does at a step, with the result the call gave: opening a stream
  with a context, sending a request or a response on a stream, receiving from a stream,
  sending to and receiving from the channel \<^verbatim>\<open>c\<close>, and taking the
  \<^verbatim>\<open>case <-ctx.Done()\<close> branch of a \<^verbatim>\<open>select\<close>.
\<close>

datatype session = Publisher | Subscriber

datatype 'm op =
    Open call_ctx "error option"
  | SendRequest gnmi_SubscribeRequest "error option"
  | SendResponse 'm "error option"
  | Recv "error + 'm"
  | ChanSend 'm
  | ChanRecv 'm
  | CtxDone

text \<open>
  The state of an iteration: the two goroutines, whether the context of the errgroup is
  cancelled (\<^verbatim>\<open>ctx.Done()\<close> is closed), the first error the errgroup has kept, and
  what the goroutines have done so far. The channel \<^verbatim>\<open>c\<close> is unbuffered and so holds
  nothing between steps.
\<close>

record 'm iter =
  pub :: "'m pub_pc"
  sub :: "'m sub_pc"
  cancelled :: bool
  eg_err :: "error option"
  trace :: "(session \<times> 'm op) list"

text \<open>Lines 131 to 140: a new errgroup, context and channel, and both goroutines started.\<close>

definition new_iter :: "'m iter" where
  "new_iter = \<lparr>pub = P_Open, sub = S_Open, cancelled = False, eg_err = None, trace = []\<rparr>"

text \<open>\<^verbatim>\<open>ctx.Err()\<close>: \<^verbatim>\<open>nil\<close> until the context is cancelled.\<close>

definition ctx_Err :: "'m iter \<Rightarrow> error option" where
  "ctx_Err s = (if cancelled s then Some Canceled else None)"

text \<open>
  What \<^verbatim>\<open>errgroup.Group.Go\<close> does when the function it runs returns \<open>r\<close>: the first
  non-nil error is kept and cancels the context; a \<^verbatim>\<open>nil\<close> return does neither.
\<close>

definition eg_Go_return :: "error option \<Rightarrow> 'm iter \<Rightarrow> 'm iter" where
  "eg_Go_return r s =
     (case r of
        None \<Rightarrow> s
      | Some err \<Rightarrow>
          (case eg_err s of
             None \<Rightarrow> s\<lparr>eg_err := Some err, cancelled := True\<rparr>
           | Some _ \<Rightarrow> s))"

definition emit :: "session \<Rightarrow> 'm op \<Rightarrow> 'm iter \<Rightarrow> 'm iter" where
  "emit who x s = s\<lparr>trace := trace s @ [(who, x)]\<rparr>"

definition publish_return :: "error option \<Rightarrow> 'm iter \<Rightarrow> 'm iter" where
  "publish_return r s = eg_Go_return r (s\<lparr>pub := P_Ret r\<rparr>)"

definition subscribe_return :: "error option \<Rightarrow> 'm iter \<Rightarrow> 'm iter" where
  "subscribe_return r s = eg_Go_return r (s\<lparr>sub := S_Ret r\<rparr>)"

text \<open>
  A step is chosen by the scheduler and the peers: which goroutine moves, which ready
  branch a \<^verbatim>\<open>select\<close> takes, and what a stream call returns. A blocked call is a
  step that is not taken. \<open>Handoff\<close> is the rendezvous on the unbuffered channel:
  \<^verbatim>\<open>c <- resp\<close> in \<^verbatim>\<open>subscribe\<close> and \<^verbatim>\<open>response := <-c\<close> in \<^verbatim>\<open>publish\<close> happen
  together.
\<close>

datatype 'm action =
    PublishOpen "error option"
  | PublishDone
  | PublishSend "error option"
  | Handoff
  | SubscribeOpen "error option"
  | SubscribeSend "error option"
  | SubscribeRecv "error + 'm"
  | SubscribeDone

text \<open>
  \<open>step fl a s\<close> is the state after the action, or \<open>None\<close> when the action is not
  possible in \<open>s\<close>. The parameters of \<^verbatim>\<open>subscribe\<close> come from the flags (line 139).
\<close>

fun step :: "flags \<Rightarrow> 'm action \<Rightarrow> 'm iter \<Rightarrow> 'm iter option" where
  "step fl (PublishOpen r) s =
     (case pub s of
        P_Open \<Rightarrow>
          (case r of
             Some err \<Rightarrow>
               Some (publish_return (Some (Errorf ''error from Publish: %s'' [err]))
                       (emit Publisher (Open Background r) s))
           | None \<Rightarrow> Some ((emit Publisher (Open Background r) s)\<lparr>pub := P_Select\<rparr>))
      | _ \<Rightarrow> None)"
| "step fl PublishDone s =
     (case pub s of
        P_Select \<Rightarrow>
          if cancelled s then Some (publish_return (ctx_Err s) (emit Publisher CtxDone s))
          else None
      | _ \<Rightarrow> None)"
| "step fl Handoff s =
     (case pub s of
        P_Select \<Rightarrow>
          (case sub s of
             S_Select resp \<Rightarrow>
               Some ((emit Publisher (ChanRecv resp) (emit Subscriber (ChanSend resp) s))
                       \<lparr>pub := P_Send resp, sub := S_Recv\<rparr>)
           | _ \<Rightarrow> None)
      | _ \<Rightarrow> None)"
| "step fl (PublishSend r) s =
     (case pub s of
        P_Send response \<Rightarrow>
          (case r of
             Some err \<Rightarrow>
               Some (publish_return (Some (Errorf ''error from Publish.Send: %s'' [err]))
                       (emit Publisher (SendResponse response r) s))
           | None \<Rightarrow> Some ((emit Publisher (SendResponse response r) s)\<lparr>pub := P_Select\<rparr>))
      | _ \<Rightarrow> None)"
| "step fl (SubscribeOpen r) s =
     (case sub s of
        S_Open \<Rightarrow>
          (case r of
             Some err \<Rightarrow>
               Some (subscribe_return (Some (Errorf ''error from Subscribe: %s'' [err]))
                       (emit Subscriber
                          (Open (subscribe_ctx Background (flag_username fl) (flag_password fl)) r) s))
           | None \<Rightarrow>
               Some ((emit Subscriber
                        (Open (subscribe_ctx Background (flag_username fl) (flag_password fl)) r) s)
                       \<lparr>sub := S_SendReq\<rparr>))
      | _ \<Rightarrow> None)"
| "step fl (SubscribeSend r) s =
     (case sub s of
        S_SendReq \<Rightarrow>
          (case r of
             Some err \<Rightarrow>
               Some (subscribe_return (Some (Errorf ''error sending SubscribeRequest: %s'' [err]))
                       (emit Subscriber
                          (SendRequest (subscribe_request (flag_target_value fl) (flag_subscribe fl)) r) s))
           | None \<Rightarrow>
               Some ((emit Subscriber
                        (SendRequest (subscribe_request (flag_target_value fl) (flag_subscribe fl)) r) s)
                       \<lparr>sub := S_Recv\<rparr>))
      | _ \<Rightarrow> None)"
| "step fl (SubscribeRecv r) s =
     (case sub s of
        S_Recv \<Rightarrow>
          (case r of
             Inl err \<Rightarrow>
               Some (subscribe_return (Some (Errorf ''error from Subscribe.Recv: %s'' [err]))
                       (emit Subscriber (Recv r) s))
           | Inr resp \<Rightarrow> Some ((emit Subscriber (Recv r) s)\<lparr>sub := S_Select resp\<rparr>))
      | _ \<Rightarrow> None)"
| "step fl SubscribeDone s =
     (case sub s of
        S_Select resp \<Rightarrow>
          if cancelled s then Some (subscribe_return (ctx_Err s) (emit Subscriber CtxDone s))
          else None
      | _ \<Rightarrow> None)"

text \<open>A run of an iteration: the actions taken one after the other.\<close>

fun run :: "flags \<Rightarrow> 'm action list \<Rightarrow> 'm iter \<Rightarrow> 'm iter option" where
  "run fl [] s = Some s"
| "run fl (a # as) s = (case step fl a s of None \<Rightarrow> None | Some s' \<Rightarrow> run fl as s')"

text \<open>
  The messages \<^verbatim>\<open>subscribe\<close> has received from the target, the messages
  \<^verbatim>\<open>publish\<close> has sent to the collector, and the messages in hand: taken from the
  channel and not yet sent, received and not yet put on the channel.
\<close>

fun received :: "(session \<times> 'm op) list \<Rightarrow> 'm list" where
  "received [] = []"
| "received ((Subscriber, Recv (Inr resp)) # t) = resp # received t"
| "received (e # t) = received t"

fun published :: "(session \<times> 'm op) list \<Rightarrow> 'm list" where
  "published [] = []"
| "published ((Publisher, SendResponse response None) # t) = response # published t"
| "published (e # t) = published t"

definition in_hand :: "'m iter \<Rightarrow> 'm list" where
  "in_hand s =
     (case pub s of P_Send response \<Rightarrow> [response] | _ \<Rightarrow> []) @
     (case sub s of S_Select resp \<Rightarrow> [resp] | _ \<Rightarrow> [])"

text \<open>The requests \<^verbatim>\<open>subscribe\<close> has sent on its stream.\<close>

fun requests :: "(session \<times> 'm op) list \<Rightarrow> gnmi_SubscribeRequest list" where
  "requests [] = []"
| "requests ((Subscriber, SendRequest rq r) # t) = rq # requests t"
| "requests (e # t) = requests t"

subsection \<open>The retry loop: lines 127 to 145 of \<^verbatim>\<open>main\<close>\<close>

text \<open>
  The loop runs the iteration, and when \<^verbatim>\<open>eg.Wait()\<close> returns (both goroutines have
  returned) it logs the error of the errgroup, if any, and starts the next iteration.
  \<open>started\<close> counts the iterations started; \<open>logged\<close> holds the arguments of the
  calls of \<^verbatim>\<open>glog.Errorf\<close>.
\<close>

record 'm main_state =
  current :: "'m iter"
  started :: nat
  logged :: "(string \<times> error) list"

datatype 'm proc = Exited fatal | Looping "'m main_state"

datatype 'm main_action = Session "'m action" | Wait

definition main_step :: "flags \<Rightarrow> 'm main_action \<Rightarrow> 'm main_state \<Rightarrow> 'm main_state option" where
  "main_step fl a ms =
     (case a of
        Session b \<Rightarrow>
          (case step fl b (current ms) of
             None \<Rightarrow> None
           | Some s' \<Rightarrow> Some (ms\<lparr>current := s'\<rparr>))
      | Wait \<Rightarrow>
          (case pub (current ms) of
             P_Ret rp \<Rightarrow>
               (case sub (current ms) of
                  S_Ret rs \<Rightarrow>
                    Some \<lparr>current = new_iter,
                          started = Suc (started ms),
                          logged =
                            (case eg_err (current ms) of
                               Some err \<Rightarrow> logged ms @ [(''encountered error, retrying: %s'', err)]
                             | None \<Rightarrow> logged ms)\<rparr>
                | _ \<Rightarrow> None)
           | _ \<Rightarrow> None))"

text \<open>
  The process: start-up, then the loop. A process that has exited takes no step.
\<close>

definition main_start :: "('c, 'k) sys \<Rightarrow> flags \<Rightarrow> 'm proc" where
  "main_start os fl =
     (case fst (startup os fl) of
        Some f \<Rightarrow> Exited f
      | None \<Rightarrow> Looping \<lparr>current = new_iter, started = 1, logged = []\<rparr>)"

definition proc_step :: "flags \<Rightarrow> 'm main_action \<Rightarrow> 'm proc \<Rightarrow> 'm proc option" where
  "proc_step fl a p =
     (case p of
        Exited f \<Rightarrow> None
      | Looping ms \<Rightarrow>
          (case main_step fl a ms of None \<Rightarrow> None | Some ms' \<Rightarrow> Some (Looping ms')))"

fun proc_run :: "flags \<Rightarrow> 'm main_action list \<Rightarrow> 'm proc \<Rightarrow> 'm proc option" where
  "proc_run fl [] p = Some p"
| "proc_run fl (a # as) p =
     (case proc_step fl a p of None \<Rightarrow> None | Some p' \<Rightarrow> proc_run fl as p')"

subsection \<open>Vocabulary of the properties\<close>

text \<open>Network calls and file reads among the calls made.\<close>

fun is_Dial :: "io \<Rightarrow> bool" where
  "is_Dial (IO_Dial a) = True"
| "is_Dial _ = False"

fun is_ReadFile :: "io \<Rightarrow> bool" where
  "is_ReadFile (IO_ReadFile a) = True"
| "is_ReadFile _ = False"

text \<open>
  A concrete system and concrete flags for the examples: one readable CA file holding one
  certificate, no loadable key pair, both dials succeeding; the flags give a client
  certificate and no key.
\<close>

definition demo_sys :: "(string, string) sys" where
  "demo_sys =
     \<lparr>ReadFile = (\<lambda>p. if p = ''ca.pem'' then Inr ''PEM'' else Inl (Underlying ''no such file'')),
      PEMCerts = (\<lambda>b. if b = ''PEM'' then [''ca''] else []),
      LoadX509KeyPair = (\<lambda>c k. Inl (Underlying ''no such file'')),
      Dial = (\<lambda>a opt. None)\<rparr>"

definition demo_flags :: flags where
  "demo_flags =
     \<lparr>flag_target_addr = ''127.0.0.1:6030'', flag_collector_addr = ''10.0.0.5:9339'',
      flag_target_value = ''device1'', flag_subscribe = [],
      flag_username = ''admin'', flag_password = [], flag_source_addr = [],
      flag_collector_certfile = ''client.crt'', flag_collector_keyfile = [],
      flag_collector_cafile = [], flag_collector_tls = True,
      flag_collector_tls_skipverify = False\<rparr>"

text \<open>
  The errors \<^verbatim>\<open>publish\<close> and \<^verbatim>\<open>subscribe\<close> return: the cancellation reason of the
  context, or the error of a stream call wrapped by \<^verbatim>\<open>fmt.Errorf\<close>.
\<close>

fun publish_error :: "error \<Rightarrow> bool" where
  "publish_error Canceled = True"
| "publish_error (Errorf f [e]) =
     (f = ''error from Publish: %s'' \<or> f = ''error from Publish.Send: %s'')"
| "publish_error _ = False"

fun subscribe_error :: "error \<Rightarrow> bool" where
  "subscribe_error Canceled = True"
| "subscribe_error (Errorf f [e]) =
     (f = ''error from Subscribe: %s'' \<or> f = ''error sending SubscribeRequest: %s''
      \<or> f = ''error from Subscribe.Recv: %s'')"
| "subscribe_error _ = False"

text \<open>A goroutine that has returned has returned one of its errors.\<close>

definition error_exits :: "'m iter \<Rightarrow> bool" where
  "error_exits s =
     ((case pub s of
         P_Ret r \<Rightarrow> (case r of Some e \<Rightarrow> publish_error e | None \<Rightarrow> False)
       | _ \<Rightarrow> True)
    \<and> (case sub s of
         S_Ret r \<Rightarrow> (case r of Some e \<Rightarrow> subscribe_error e | None \<Rightarrow> False)
       | _ \<Rightarrow> True))"

text \<open>Whether \<^verbatim>\<open>publish\<close>, \<^verbatim>\<open>subscribe\<close> has returned.\<close>

definition pub_returned :: "'m iter \<Rightarrow> bool" where
  "pub_returned s = (case pub s of P_Ret r \<Rightarrow> True | _ \<Rightarrow> False)"

definition sub_returned :: "'m iter \<Rightarrow> bool" where
  "sub_returned s = (case sub s of S_Ret r \<Rightarrow> True | _ \<Rightarrow> False)"

text \<open>
  The schedule on which \<^verbatim>\<open>publish\<close> catches up with what \<^verbatim>\<open>subscribe\<close> has received,
  every call to the collector succeeding: it opens its stream if it has not yet, sends
  the message it holds, then takes the message \<^verbatim>\<open>subscribe\<close> holds and sends it.
\<close>

definition drain :: "'m iter \<Rightarrow> 'm action list" where
  "drain s =
     (case pub s of
        P_Open \<Rightarrow> [PublishOpen None]
      | P_Send response \<Rightarrow> [PublishSend None]
      | _ \<Rightarrow> []) @
     (case sub s of
        S_Select resp \<Rightarrow> [Handoff, PublishSend None]
      | _ \<Rightarrow> [])"

text \<open>
  The messages \<^verbatim>\<open>publish\<close> has taken from the channel and the messages it has passed
  to \<^verbatim>\<open>stream.Send\<close>, and the steps the body of \<^verbatim>\<open>publish\<close> can make.
\<close>

fun taken :: "(session \<times> 'm op) list \<Rightarrow> 'm list" where
  "taken [] = []"
| "taken ((Publisher, ChanRecv response) # t) = response # taken t"
| "taken (e # t) = taken t"

fun sent :: "(session \<times> 'm op) list \<Rightarrow> 'm list" where
  "sent [] = []"
| "sent ((Publisher, SendResponse response r) # t) = response # sent t"
| "sent (e # t) = sent t"

fun publish_op :: "'m op \<Rightarrow> bool" where
  "publish_op (Open c r) = True"
| "publish_op (ChanRecv response) = True"
| "publish_op (SendResponse response r) = True"
| "publish_op CtxDone = True"
| "publish_op _ = False"

fun publish_ops :: "(session \<times> 'm op) list \<Rightarrow> bool" where
  "publish_ops [] = True"
| "publish_ops ((Publisher, x) # t) = (publish_op x \<and> publish_ops t)"
| "publish_ops (e # t) = publish_ops t"

text \<open>The contexts a goroutine has opened a stream with.\<close>

fun opens :: "session \<Rightarrow> (session \<times> 'm op) list \<Rightarrow> call_ctx list" where
  "opens w [] = []"
| "opens w ((w', Open c r) # t) = (if w' = w then c # opens w t else opens w t)"
| "opens w (e # t) = opens w t"

text \<open>
  One iteration in which both streams fail to open, and the loop going through it \<open>n\<close>
  times.
\<close>

definition failing_iteration :: "'m main_action list" where
  "failing_iteration =
     [Session (PublishOpen (Some (Underlying ''unavailable''))),
      Session (SubscribeOpen (Some (Underlying ''unavailable''))),
      Wait]"

fun iterations :: "nat \<Rightarrow> 'm main_action list" where
  "iterations 0 = []"
| "iterations (Suc n) = failing_iteration @ iterations n"

text \<open>
  Flags for the examples of the relay: the target is reached with a user name and an empty
  password, one path is subscribed to twice, the collector is reached in plaintext.
\<close>

definition relay_flags :: flags where
  "relay_flags =
     \<lparr>flag_target_addr = ''127.0.0.1:6030'', flag_collector_addr = ''10.0.0.5:9339'',
      flag_target_value = ''device1'',
      flag_subscribe =
        [\<lparr>Origin = [], Elem = [(''interfaces'', [])], Target = []\<rparr>,
         \<lparr>Origin = [], Elem = [(''system'', [])], Target = []\<rparr>,
         \<lparr>Origin = [], Elem = [(''interfaces'', [])], Target = []\<rparr>],
      flag_username = ''admin'', flag_password = [], flag_source_addr = [],
      flag_collector_certfile = [], flag_collector_keyfile = [],
      flag_collector_cafile = [], flag_collector_tls = False,
      flag_collector_tls_skipverify = False\<rparr>"

text \<open>
  A schedule that relays two messages, and one in which the target closes the stream and
  \<^verbatim>\<open>publish\<close> sees the cancellation.
\<close>

definition relay_run :: "nat action list" where
  "relay_run =
     [SubscribeOpen None, SubscribeSend None, SubscribeRecv (Inr 7), PublishOpen None,
      Handoff, SubscribeRecv (Inr 8), PublishSend None, Handoff]"

definition closing_run :: "nat action list" where
  "closing_run =
     [PublishOpen None, SubscribeOpen None, SubscribeSend None, SubscribeRecv (Inl EOF)]"

text \<open>
  A system whose CA file holds two certificates and whose client key pair loads.
\<close>

definition bundle_sys :: "(string, string) sys" where
  "bundle_sys =
     \<lparr>ReadFile =
        (\<lambda>p. if p = ''bundle.pem'' then Inr ''PEM PEM'' else Inl (Underlying ''no such file'')),
      PEMCerts = (\<lambda>b. if b = ''PEM PEM'' then [''root1'', ''root2''] else []),
      LoadX509KeyPair =
        (\<lambda>c k. if c = ''client.crt'' \<and> k = ''client.key'' then Inr ''pair''
               else Inl (Underlying ''no such file'')),
      Dial = (\<lambda>a opt. None)\<rparr>"

text \<open>
  A bound on the steps a goroutine can still make once the context is cancelled and the
  other goroutine has returned: every call on a stream once, then the \<^verbatim>\<open>select\<close>.
\<close>

fun pub_left :: "'m pub_pc \<Rightarrow> nat" where
  "pub_left P_Open = 2"
| "pub_left (P_Send response) = 2"
| "pub_left P_Select = 1"
| "pub_left (P_Ret r) = 0"

fun sub_left :: "'m sub_pc \<Rightarrow> nat" where
  "sub_left S_Open = 4"
| "sub_left S_SendReq = 3"
| "sub_left S_Recv = 2"
| "sub_left (S_Select resp) = 1"
| "sub_left (S_Ret r) = 0"

definition steps_left :: "'m iter \<Rightarrow> nat" where
  "steps_left s = pub_left (pub s) + sub_left (sub s)"

section \<open>Properties\<close>

subsection \<open>The credential builder\<close>

lemma tls_roots_no_Dial: "filter is_Dial (snd (tls_roots os skipVerify caFile tc)) = []"
  by (simp add: tls_roots_def AppendCertsFromPEM_def split: sum.splits)

lemma tls_client_cert_keeps:
  "tls_client_cert os certFile keyFile tc = (Inr tc', io2) \<Longrightarrow>
     InsecureSkipVerify tc' = InsecureSkipVerify tc \<and> RootCAs tc' = RootCAs tc"
  by (auto simp: tls_client_cert_def split: if_splits sum.splits)

lemma tls_client_cert_no_ReadFile:
  "filter is_ReadFile (snd (tls_client_cert os certFile keyFile tc)) = []"
  by (simp add: tls_client_cert_def split: sum.splits)

lemma newTLSConfig_via_roots:
  assumes "tls_roots os skipVerify caFile tls_Config_zero = (Inr tc, io1)"
      and "newTLSConfig os True skipVerify certFile keyFile caFile = (Inr opt, io)"
  shows "\<exists>tc'. opt = WithTransportCredentials (NewTLS tc')
           \<and> InsecureSkipVerify tc' = InsecureSkipVerify tc \<and> RootCAs tc' = RootCAs tc"
proof -
  obtain r2 io2 where c: "tls_client_cert os certFile keyFile tc = (r2, io2)"
    by (cases "tls_client_cert os certFile keyFile tc")
  show ?thesis
  proof (cases r2)
    case (Inl e)
    with assms c show ?thesis by (simp add: newTLSConfig_def)
  next
    case (Inr tc')
    with assms c tls_client_cert_keeps[of os certFile keyFile tc tc' io2]
    show ?thesis by (auto simp: newTLSConfig_def)
  qed
qed

lemma newTLSConfig_accepts:
  assumes "tls_roots os skipVerify caFile tls_Config_zero = (Inr tc, io1)"
  shows "certFile = [] \<Longrightarrow>
           newTLSConfig os True skipVerify certFile keyFile caFile =
             (Inr (WithTransportCredentials (NewTLS tc)), io1)"
    and "certFile \<noteq> [] \<Longrightarrow> keyFile \<noteq> [] \<Longrightarrow> LoadX509KeyPair os certFile keyFile = Inr cert \<Longrightarrow>
           newTLSConfig os True skipVerify certFile keyFile caFile =
             (Inr (WithTransportCredentials (NewTLS (tc\<lparr>Certificates := [cert]\<rparr>))),
              io1 @ [IO_LoadX509KeyPair certFile keyFile])"
  using assms by (simp_all add: newTLSConfig_def tls_client_cert_def)

text \<open>
  C6. With TLS disabled the builder returns the no-transport-security option and no error,
  whatever the skip-verify flag and the three paths are, and it makes no call: no file is
  read and no path is checked.
\<close>

theorem newTLSConfig_plaintext:
  "newTLSConfig os False skipVerify certFile keyFile caFile = (Inr WithInsecure, [])"
  by (simp add: newTLSConfig_def)

text \<open>
  C3, as stated, fails: with TLS disabled, a client certificate path without a key path is
  accepted and the builder returns the no-transport-security option.
\<close>

theorem cert_without_key_plaintext_accepted:
  "newTLSConfig demo_sys False False ''client.crt'' [] [] = (Inr WithInsecure, [])"
  by (simp add: newTLSConfig_def)

text \<open>
  C3, amended. With TLS enabled, a client certificate path given with an empty key path
  makes the builder return an error and no option; \<^verbatim>\<open>main\<close> then exits with that error
  through \<^verbatim>\<open>glog.Fatal\<close>, and no dial has been attempted.
\<close>

theorem cert_without_key:
  assumes "flag_collector_tls fl" "flag_collector_certfile fl \<noteq> []" "flag_collector_keyfile fl = []"
  shows "\<exists>err. fst (newTLSConfig os (flag_collector_tls fl) (flag_collector_tls_skipverify fl)
             (flag_collector_certfile fl) (flag_collector_keyfile fl) (flag_collector_cafile fl)) = Inl err
          \<and> fst (startup os fl) = Some (Fatal err)
          \<and> filter is_Dial (snd (startup os fl)) = []"
proof -
  obtain r io1 where r: "tls_roots os (flag_collector_tls_skipverify fl) (flag_collector_cafile fl) tls_Config_zero = (r, io1)"
    by (cases "tls_roots os (flag_collector_tls_skipverify fl) (flag_collector_cafile fl) tls_Config_zero")
  have io1: "filter is_Dial io1 = []" using tls_roots_no_Dial[of os "flag_collector_tls_skipverify fl" "flag_collector_cafile fl" tls_Config_zero] r by simp
  show ?thesis
  proof (cases r)
    case (Inl e)
    with r io1 assms show ?thesis by (simp add: newTLSConfig_def startup_def)
  next
    case (Inr tc)
    with r io1 assms show ?thesis by (simp add: newTLSConfig_def startup_def tls_client_cert_def)
  qed
qed

theorem cert_without_key_witness:
  "flag_collector_tls demo_flags \<and> flag_collector_certfile demo_flags \<noteq> []
   \<and> flag_collector_keyfile demo_flags = []
   \<and> fst (startup demo_sys demo_flags) =
       Some (Fatal (Errorf ''please provide both -collector_certfile and -collector_keyfile'' []))
   \<and> snd (startup demo_sys demo_flags) = []"
  using cert_without_key[of demo_flags demo_sys]
  by (simp add: demo_flags_def demo_sys_def startup_def newTLSConfig_def tls_roots_def
        tls_client_cert_def tls_Config_zero_def)

text \<open>
  C5. With TLS enabled: if skip-verify is set, no file is read, the result is the same
  whatever the CA path is, and the option returned has verification disabled; otherwise,
  with a CA path, the file is read first, a read error or a file without certificates is
  the error returned, and a file that is read and holds certificates is accepted, the
  option returned trusting exactly the certificates of the file; with an empty CA path no
  file is read and the option returned keeps the default roots. In each of the three cases
  the builder does return the option, with these calls and no other, when no client
  certificate is asked for and when the client key pair loads; an error can then only come
  from the client certificate.
\<close>

theorem server_verification:
  assumes "newTLSConfig os True skipVerify certFile keyFile caFile = (res, io)"
  shows "(skipVerify \<longrightarrow>
            filter is_ReadFile io = []
          \<and> newTLSConfig os True skipVerify certFile keyFile caFile' = (res, io)
          \<and> (\<forall>opt. res = Inr opt \<longrightarrow>
                (\<exists>tc. opt = WithTransportCredentials (NewTLS tc)
                      \<and> InsecureSkipVerify tc \<and> RootCAs tc = None))
          \<and> (certFile = [] \<longrightarrow>
                res = Inr (WithTransportCredentials (NewTLS
                        \<lparr>InsecureSkipVerify = True, RootCAs = None, Certificates = []\<rparr>))
              \<and> io = [])
          \<and> (\<forall>cert. certFile \<noteq> [] \<and> keyFile \<noteq> []
                  \<and> LoadX509KeyPair os certFile keyFile = Inr cert \<longrightarrow>
                res = Inr (WithTransportCredentials (NewTLS
                        \<lparr>InsecureSkipVerify = True, RootCAs = None, Certificates = [cert]\<rparr>))
              \<and> io = [IO_LoadX509KeyPair certFile keyFile]))
       \<and> (\<not> skipVerify \<and> caFile \<noteq> [] \<longrightarrow>
            take 1 io = [IO_ReadFile caFile]
          \<and> (\<forall>err. ReadFile os caFile = Inl err \<longrightarrow> res = Inl err)
          \<and> (\<forall>b. ReadFile os caFile = Inr b \<and> PEMCerts os b = [] \<longrightarrow>
                res = Inl (Errorf ''credentials: failed to append certificates'' []))
          \<and> (\<forall>b opt. ReadFile os caFile = Inr b \<and> res = Inr opt \<longrightarrow>
                (\<exists>tc. opt = WithTransportCredentials (NewTLS tc)
                      \<and> \<not> InsecureSkipVerify tc \<and> RootCAs tc = Some (PEMCerts os b)))
          \<and> (\<forall>b. ReadFile os caFile = Inr b \<and> PEMCerts os b \<noteq> [] \<and> certFile = [] \<longrightarrow>
                res = Inr (WithTransportCredentials (NewTLS
                        \<lparr>InsecureSkipVerify = False, RootCAs = Some (PEMCerts os b),
                         Certificates = []\<rparr>))
              \<and> io = [IO_ReadFile caFile])
          \<and> (\<forall>b cert. ReadFile os caFile = Inr b \<and> PEMCerts os b \<noteq> [] \<and> certFile \<noteq> []
                  \<and> keyFile \<noteq> [] \<and> LoadX509KeyPair os certFile keyFile = Inr cert \<longrightarrow>
                res = Inr (WithTransportCredentials (NewTLS
                        \<lparr>InsecureSkipVerify = False, RootCAs = Some (PEMCerts os b),
                         Certificates = [cert]\<rparr>))
              \<and> io = [IO_ReadFile caFile, IO_LoadX509KeyPair certFile keyFile]))
       \<and> (\<not> skipVerify \<and> caFile = [] \<longrightarrow>
            filter is_ReadFile io = []
          \<and> (\<forall>opt. res = Inr opt \<longrightarrow>
                (\<exists>tc. opt = WithTransportCredentials (NewTLS tc)
                      \<and> \<not> InsecureSkipVerify tc \<and> RootCAs tc = None))
          \<and> (certFile = [] \<longrightarrow>
                res = Inr (WithTransportCredentials (NewTLS
                        \<lparr>InsecureSkipVerify = False, RootCAs = None, Certificates = []\<rparr>))
              \<and> io = [])
          \<and> (\<forall>cert. certFile \<noteq> [] \<and> keyFile \<noteq> []
                  \<and> LoadX509KeyPair os certFile keyFile = Inr cert \<longrightarrow>
                res = Inr (WithTransportCredentials (NewTLS
                        \<lparr>InsecureSkipVerify = False, RootCAs = None, Certificates = [cert]\<rparr>))
              \<and> io = [IO_LoadX509KeyPair certFile keyFile]))"
proof (intro conjI impI)
  assume sv: skipVerify
  then have roots: "\<And>ca. tls_roots os skipVerify ca tls_Config_zero =
      (Inr (tls_Config_zero\<lparr>InsecureSkipVerify := True\<rparr>), [])"
    by (simp add: tls_roots_def)
  have "newTLSConfig os True skipVerify certFile keyFile caFile' =
        newTLSConfig os True skipVerify certFile keyFile caFile"
    by (simp add: newTLSConfig_def roots)
  with assms show "newTLSConfig os True skipVerify certFile keyFile caFile' = (res, io)" by simp
  have "io = snd (tls_client_cert os certFile keyFile (tls_Config_zero\<lparr>InsecureSkipVerify := True\<rparr>))"
    using assms by (auto simp: newTLSConfig_def roots split: prod.splits sum.splits)
  then show "filter is_ReadFile io = []" by (simp add: tls_client_cert_no_ReadFile)
  show "\<forall>opt. res = Inr opt \<longrightarrow>
                (\<exists>tc. opt = WithTransportCredentials (NewTLS tc)
                      \<and> InsecureSkipVerify tc \<and> RootCAs tc = None)"
    using newTLSConfig_via_roots[OF roots[of caFile], of certFile keyFile _ io] assms
    by (auto simp: tls_Config_zero_def)
  {
    assume "certFile = []"
    from newTLSConfig_accepts(1)[OF roots[of caFile] this, of keyFile] assms
    have "res = Inr (WithTransportCredentials (NewTLS
                        \<lparr>InsecureSkipVerify = True, RootCAs = None, Certificates = []\<rparr>))
          \<and> io = []"
      by (simp add: tls_Config_zero_def)
    then show "res = Inr (WithTransportCredentials (NewTLS
                        \<lparr>InsecureSkipVerify = True, RootCAs = None, Certificates = []\<rparr>))"
      and "io = []" by simp_all
  }
  show "\<forall>cert. certFile \<noteq> [] \<and> keyFile \<noteq> []
                  \<and> LoadX509KeyPair os certFile keyFile = Inr cert \<longrightarrow>
                res = Inr (WithTransportCredentials (NewTLS
                        \<lparr>InsecureSkipVerify = True, RootCAs = None, Certificates = [cert]\<rparr>))
              \<and> io = [IO_LoadX509KeyPair certFile keyFile]"
    using newTLSConfig_accepts(2)[OF roots[of caFile], of certFile keyFile] assms
    by (auto simp: tls_Config_zero_def)
next
  assume h: "\<not> skipVerify \<and> caFile \<noteq> []"
  show "take 1 io = [IO_ReadFile caFile]"
    using assms h
    by (auto simp: newTLSConfig_def tls_roots_def AppendCertsFromPEM_def
             split: prod.splits sum.splits if_splits)
  show "\<forall>err. ReadFile os caFile = Inl err \<longrightarrow> res = Inl err"
    using assms h by (auto simp: newTLSConfig_def tls_roots_def)
  show "\<forall>b. ReadFile os caFile = Inr b \<and> PEMCerts os b = [] \<longrightarrow>
                res = Inl (Errorf ''credentials: failed to append certificates'' [])"
    using assms h by (auto simp: newTLSConfig_def tls_roots_def AppendCertsFromPEM_def)
  have roots: "tls_roots os skipVerify caFile tls_Config_zero =
          (Inr (tls_Config_zero\<lparr>RootCAs := Some (PEMCerts os b)\<rparr>), [IO_ReadFile caFile])"
    if "ReadFile os caFile = Inr b" "PEMCerts os b \<noteq> []" for b
    using that h by (simp add: tls_roots_def AppendCertsFromPEM_def)
  show "\<forall>b opt. ReadFile os caFile = Inr b \<and> res = Inr opt \<longrightarrow>
                (\<exists>tc. opt = WithTransportCredentials (NewTLS tc)
                      \<and> \<not> InsecureSkipVerify tc \<and> RootCAs tc = Some (PEMCerts os b))"
  proof (intro allI impI)
    fix b opt assume b: "ReadFile os caFile = Inr b \<and> res = Inr opt"
    show "\<exists>tc. opt = WithTransportCredentials (NewTLS tc)
                      \<and> \<not> InsecureSkipVerify tc \<and> RootCAs tc = Some (PEMCerts os b)"
    proof (cases "PEMCerts os b = []")
      case True
      with assms h b show ?thesis
        by (auto simp: newTLSConfig_def tls_roots_def AppendCertsFromPEM_def)
    next
      case False
      from newTLSConfig_via_roots[OF roots, of b certFile keyFile opt io] assms b False
      show ?thesis by (auto simp: tls_Config_zero_def)
    qed
  qed
  show "\<forall>b. ReadFile os caFile = Inr b \<and> PEMCerts os b \<noteq> [] \<and> certFile = [] \<longrightarrow>
                res = Inr (WithTransportCredentials (NewTLS
                        \<lparr>InsecureSkipVerify = False, RootCAs = Some (PEMCerts os b),
                         Certificates = []\<rparr>))
              \<and> io = [IO_ReadFile caFile]"
  proof (intro allI impI)
    fix b assume b: "ReadFile os caFile = Inr b \<and> PEMCerts os b \<noteq> [] \<and> certFile = []"
    then have r: "tls_roots os skipVerify caFile tls_Config_zero =
          (Inr (tls_Config_zero\<lparr>RootCAs := Some (PEMCerts os b)\<rparr>), [IO_ReadFile caFile])"
      by (simp add: roots)
    from b have c: "certFile = []" by simp
    from newTLSConfig_accepts(1)[OF r c, of keyFile] assms
    show "res = Inr (WithTransportCredentials (NewTLS
                        \<lparr>InsecureSkipVerify = False, RootCAs = Some (PEMCerts os b),
                         Certificates = []\<rparr>))
              \<and> io = [IO_ReadFile caFile]"
      by (simp add: tls_Config_zero_def)
  qed
  show "\<forall>b cert. ReadFile os caFile = Inr b \<and> PEMCerts os b \<noteq> [] \<and> certFile \<noteq> []
                  \<and> keyFile \<noteq> [] \<and> LoadX509KeyPair os certFile keyFile = Inr cert \<longrightarrow>
                res = Inr (WithTransportCredentials (NewTLS
                        \<lparr>InsecureSkipVerify = False, RootCAs = Some (PEMCerts os b),
                         Certificates = [cert]\<rparr>))
              \<and> io = [IO_ReadFile caFile, IO_LoadX509KeyPair certFile keyFile]"
  proof (intro allI impI)
    fix b cert
    assume b: "ReadFile os caFile = Inr b \<and> PEMCerts os b \<noteq> [] \<and> certFile \<noteq> []
                  \<and> keyFile \<noteq> [] \<and> LoadX509KeyPair os certFile keyFile = Inr cert"
    then have r: "tls_roots os skipVerify caFile tls_Config_zero =
          (Inr (tls_Config_zero\<lparr>RootCAs := Some (PEMCerts os b)\<rparr>), [IO_ReadFile caFile])"
      by (simp add: roots)
    from b have c: "certFile \<noteq> []" "keyFile \<noteq> []" "LoadX509KeyPair os certFile keyFile = Inr cert"
      by simp_all
    from newTLSConfig_accepts(2)[OF r c] assms
    show "res = Inr (WithTransportCredentials (NewTLS
                        \<lparr>InsecureSkipVerify = False, RootCAs = Some (PEMCerts os b),
                         Certificates = [cert]\<rparr>))
              \<and> io = [IO_ReadFile caFile, IO_LoadX509KeyPair certFile keyFile]"
      by (simp add: tls_Config_zero_def)
  qed
next
  assume h: "\<not> skipVerify \<and> caFile = []"
  then have roots: "tls_roots os skipVerify caFile tls_Config_zero = (Inr tls_Config_zero, [])"
    by (simp add: tls_roots_def)
  have "io = snd (tls_client_cert os certFile keyFile tls_Config_zero)"
    using assms by (auto simp: newTLSConfig_def roots split: prod.splits sum.splits)
  then show "filter is_ReadFile io = []" by (simp add: tls_client_cert_no_ReadFile)
  show "\<forall>opt. res = Inr opt \<longrightarrow>
                (\<exists>tc. opt = WithTransportCredentials (NewTLS tc)
                      \<and> \<not> InsecureSkipVerify tc \<and> RootCAs tc = None)"
    using newTLSConfig_via_roots[OF roots, of certFile keyFile _ io] assms
    by (auto simp: tls_Config_zero_def)
  {
    assume "certFile = []"
    from newTLSConfig_accepts(1)[OF roots this, of keyFile] assms
    have "res = Inr (WithTransportCredentials (NewTLS
                        \<lparr>InsecureSkipVerify = False, RootCAs = None, Certificates = []\<rparr>))
          \<and> io = []"
      by (simp add: tls_Config_zero_def)
    then show "res = Inr (WithTransportCredentials (NewTLS
                        \<lparr>InsecureSkipVerify = False, RootCAs = None, Certificates = []\<rparr>))"
      and "io = []" by simp_all
  }
  show "\<forall>cert. certFile \<noteq> [] \<and> keyFile \<noteq> []
                  \<and> LoadX509KeyPair os certFile keyFile = Inr cert \<longrightarrow>
                res = Inr (WithTransportCredentials (NewTLS
                        \<lparr>InsecureSkipVerify = False, RootCAs = None, Certificates = [cert]\<rparr>))
              \<and> io = [IO_LoadX509KeyPair certFile keyFile]"
    using newTLSConfig_accepts(2)[OF roots, of certFile keyFile] assms
    by (auto simp: tls_Config_zero_def)
qed

theorem server_verification_witness:
  "newTLSConfig demo_sys True True [] [] ''missing.pem'' =
     (Inr (WithTransportCredentials
        (NewTLS \<lparr>InsecureSkipVerify = True, RootCAs = None, Certificates = []\<rparr>)), [])
   \<and> newTLSConfig demo_sys True True [] [] ''ca.pem'' =
     (Inr (WithTransportCredentials
        (NewTLS \<lparr>InsecureSkipVerify = True, RootCAs = None, Certificates = []\<rparr>)), [])
   \<and> newTLSConfig demo_sys True False [] [] ''ca.pem'' =
     (Inr (WithTransportCredentials
        (NewTLS \<lparr>InsecureSkipVerify = False, RootCAs = Some [''ca''], Certificates = []\<rparr>)),
      [IO_ReadFile ''ca.pem''])
   \<and> newTLSConfig bundle_sys True False ''client.crt'' ''client.key'' ''bundle.pem'' =
     (Inr (WithTransportCredentials
        (NewTLS \<lparr>InsecureSkipVerify = False, RootCAs = Some [''root1'', ''root2''],
                Certificates = [''pair'']\<rparr>)),
      [IO_ReadFile ''bundle.pem'', IO_LoadX509KeyPair ''client.crt'' ''client.key''])
   \<and> newTLSConfig demo_sys True False [] [] ''missing.pem'' =
     (Inl (Underlying ''no such file''), [IO_ReadFile ''missing.pem''])"
proof -
  have a: "newTLSConfig demo_sys True True [] [] ''missing.pem'' =
     (Inr (WithTransportCredentials
        (NewTLS \<lparr>InsecureSkipVerify = True, RootCAs = None, Certificates = []\<rparr>)), [])"
    by (simp add: demo_sys_def newTLSConfig_def tls_roots_def tls_client_cert_def
          tls_Config_zero_def)
  from server_verification[OF a, of "''ca.pem''"]
  have b: "newTLSConfig demo_sys True True [] [] ''ca.pem'' =
     (Inr (WithTransportCredentials
        (NewTLS \<lparr>InsecureSkipVerify = True, RootCAs = None, Certificates = []\<rparr>)), [])"
    by blast
  obtain res io where p: "newTLSConfig demo_sys True False [] [] ''ca.pem'' = (res, io)"
    by (cases "newTLSConfig demo_sys True False ([] :: string) ([] :: string) ''ca.pem''")
  have rd: "ReadFile demo_sys ''ca.pem'' = Inr ''PEM'' \<and> PEMCerts demo_sys ''PEM'' \<noteq> []
            \<and> ([] :: string) = []"
    and pc: "PEMCerts demo_sys ''PEM'' = [''ca'']"
    by (simp_all add: demo_sys_def)
  have ne: "\<not> False \<and> ''ca.pem'' \<noteq> []" by simp
  from server_verification[OF p]
  have "\<forall>b. ReadFile demo_sys ''ca.pem'' = Inr b \<and> PEMCerts demo_sys b \<noteq> [] \<and> ([] :: string) = [] \<longrightarrow>
                res = Inr (WithTransportCredentials (NewTLS
                        \<lparr>InsecureSkipVerify = False, RootCAs = Some (PEMCerts demo_sys b),
                         Certificates = []\<rparr>))
              \<and> io = [IO_ReadFile ''ca.pem'']"
    using ne by blast
  with rd have "res = Inr (WithTransportCredentials (NewTLS
                        \<lparr>InsecureSkipVerify = False, RootCAs = Some (PEMCerts demo_sys ''PEM''),
                         Certificates = []\<rparr>))
              \<and> io = [IO_ReadFile ''ca.pem'']"
    by blast
  with p pc have c: "newTLSConfig demo_sys True False [] [] ''ca.pem'' =
     (Inr (WithTransportCredentials
        (NewTLS \<lparr>InsecureSkipVerify = False, RootCAs = Some [''ca''], Certificates = []\<rparr>)),
      [IO_ReadFile ''ca.pem''])"
    by simp
  obtain res' io' where p':
    "newTLSConfig bundle_sys True False ''client.crt'' ''client.key'' ''bundle.pem'' = (res', io')"
    by (cases "newTLSConfig bundle_sys True False ''client.crt'' ''client.key'' ''bundle.pem''")
  have rd': "ReadFile bundle_sys ''bundle.pem'' = Inr ''PEM PEM''
             \<and> PEMCerts bundle_sys ''PEM PEM'' \<noteq> [] \<and> ''client.crt'' \<noteq> []
             \<and> ''client.key'' \<noteq> []
             \<and> LoadX509KeyPair bundle_sys ''client.crt'' ''client.key'' = Inr ''pair''"
    and pc': "PEMCerts bundle_sys ''PEM PEM'' = [''root1'', ''root2'']"
    by (simp_all add: bundle_sys_def)
  have ne': "\<not> False \<and> ''bundle.pem'' \<noteq> []" by simp
  from server_verification[OF p']
  have "\<forall>b cert. ReadFile bundle_sys ''bundle.pem'' = Inr b \<and> PEMCerts bundle_sys b \<noteq> []
                  \<and> ''client.crt'' \<noteq> [] \<and> ''client.key'' \<noteq> []
                  \<and> LoadX509KeyPair bundle_sys ''client.crt'' ''client.key'' = Inr cert \<longrightarrow>
                res' = Inr (WithTransportCredentials (NewTLS
                        \<lparr>InsecureSkipVerify = False, RootCAs = Some (PEMCerts bundle_sys b),
                         Certificates = [cert]\<rparr>))
              \<and> io' = [IO_ReadFile ''bundle.pem'', IO_LoadX509KeyPair ''client.crt'' ''client.key'']"
    using ne' by blast
  with rd' have "res' = Inr (WithTransportCredentials (NewTLS
                        \<lparr>InsecureSkipVerify = False, RootCAs = Some (PEMCerts bundle_sys ''PEM PEM''),
                         Certificates = [''pair'']\<rparr>))
              \<and> io' = [IO_ReadFile ''bundle.pem'', IO_LoadX509KeyPair ''client.crt'' ''client.key'']"
    by blast
  with p' pc' have c': "newTLSConfig bundle_sys True False ''client.crt'' ''client.key'' ''bundle.pem'' =
     (Inr (WithTransportCredentials
        (NewTLS \<lparr>InsecureSkipVerify = False, RootCAs = Some [''root1'', ''root2''],
                Certificates = [''pair'']\<rparr>)),
      [IO_ReadFile ''bundle.pem'', IO_LoadX509KeyPair ''client.crt'' ''client.key''])"
    by simp
  have d: "newTLSConfig demo_sys True False [] [] ''missing.pem'' =
     (Inl (Underlying ''no such file''), [IO_ReadFile ''missing.pem''])"
    by (simp add: demo_sys_def newTLSConfig_def tls_roots_def)
  from a b c c' d show ?thesis by simp
qed

subsection \<open>The steps of an iteration\<close>

lemma run_snoc:
  "run fl (as @ [a]) s = (case run fl as s of None \<Rightarrow> None | Some t \<Rightarrow> step fl a t)"
  by (induction as arbitrary: s) (auto split: option.splits)

lemma run_append:
  "run fl (as @ bs) s = (case run fl as s of None \<Rightarrow> None | Some t \<Rightarrow> run fl bs t)"
  by (induction as arbitrary: s) (auto split: option.splits)

lemma reachable_induct [consumes 1, case_names new_iter step]:
  assumes "run fl as new_iter = Some s"
      and "P new_iter"
      and "\<And>bs a t t'. run fl bs new_iter = Some t \<Longrightarrow> P t \<Longrightarrow> step fl a t = Some t' \<Longrightarrow> P t'"
  shows "P s"
  using assms(1)
proof (induction as arbitrary: s rule: rev_induct)
  case Nil
  then show ?case using assms(2) by simp
next
  case (snoc a as)
  from snoc.prems obtain t where t: "run fl as new_iter = Some t" and st: "step fl a t = Some s"
    by (auto simp: run_snoc split: option.splits)
  from t snoc.IH[OF t] st show ?case by (rule assms(3))
qed

lemma emit_simps [simp]:
  "pub (emit w x s) = pub s" "sub (emit w x s) = sub s"
  "cancelled (emit w x s) = cancelled s" "eg_err (emit w x s) = eg_err s"
  "trace (emit w x s) = trace s @ [(w, x)]"
  by (simp_all add: emit_def)

lemma eg_Go_return_simps [simp]:
  "pub (eg_Go_return r s) = pub s" "sub (eg_Go_return r s) = sub s"
  "trace (eg_Go_return r s) = trace s"
  "cancelled (eg_Go_return r s) = (cancelled s \<or> (r \<noteq> None \<and> eg_err s = None))"
  "eg_err (eg_Go_return r s) = (case eg_err s of None \<Rightarrow> r | Some e \<Rightarrow> Some e)"
  by (simp_all add: eg_Go_return_def split: option.splits)

lemma publish_return_simps [simp]:
  "pub (publish_return r s) = P_Ret r" "sub (publish_return r s) = sub s"
  "trace (publish_return r s) = trace s"
  "cancelled (publish_return r s) = (cancelled s \<or> (r \<noteq> None \<and> eg_err s = None))"
  "eg_err (publish_return r s) = (case eg_err s of None \<Rightarrow> r | Some e \<Rightarrow> Some e)"
  by (simp_all add: publish_return_def)

lemma subscribe_return_simps [simp]:
  "pub (subscribe_return r s) = pub s" "sub (subscribe_return r s) = S_Ret r"
  "trace (subscribe_return r s) = trace s"
  "cancelled (subscribe_return r s) = (cancelled s \<or> (r \<noteq> None \<and> eg_err s = None))"
  "eg_err (subscribe_return r s) = (case eg_err s of None \<Rightarrow> r | Some e \<Rightarrow> Some e)"
  by (simp_all add: subscribe_return_def)

lemma ctx_Err_simps [simp]:
  "cancelled s \<Longrightarrow> ctx_Err s = Some Canceled" "\<not> cancelled s \<Longrightarrow> ctx_Err s = None"
  by (simp_all add: ctx_Err_def)

text \<open>What each action needs and what it leaves.\<close>

lemma step_cases [consumes 1, case_names PublishOpen PublishOpen_err PublishDone Handoff
    PublishSend PublishSend_err SubscribeOpen SubscribeOpen_err SubscribeSend
    SubscribeSend_err SubscribeRecv SubscribeRecv_err SubscribeDone]:
  assumes "step fl a t = Some t'"
  obtains
    "a = PublishOpen None" "pub t = P_Open"
      "pub t' = P_Select" "sub t' = sub t" "cancelled t' = cancelled t" "eg_err t' = eg_err t"
      "trace t' = trace t @ [(Publisher, Open Background None)]"
  | err where "a = PublishOpen (Some err)" "pub t = P_Open"
      "pub t' = P_Ret (Some (Errorf ''error from Publish: %s'' [err]))" "sub t' = sub t"
      "cancelled t' = (cancelled t \<or> eg_err t = None)"
      "eg_err t' = (case eg_err t of None \<Rightarrow> Some (Errorf ''error from Publish: %s'' [err])
                    | Some e \<Rightarrow> Some e)"
      "trace t' = trace t @ [(Publisher, Open Background (Some err))]"
  | "a = PublishDone" "pub t = P_Select" "cancelled t"
      "pub t' = P_Ret (Some Canceled)" "sub t' = sub t" "cancelled t'"
      "eg_err t' = (case eg_err t of None \<Rightarrow> Some Canceled | Some e \<Rightarrow> Some e)"
      "trace t' = trace t @ [(Publisher, CtxDone)]"
  | resp where "a = Handoff" "pub t = P_Select" "sub t = S_Select resp"
      "pub t' = P_Send resp" "sub t' = S_Recv" "cancelled t' = cancelled t" "eg_err t' = eg_err t"
      "trace t' = trace t @ [(Subscriber, ChanSend resp), (Publisher, ChanRecv resp)]"
  | response where "a = PublishSend None" "pub t = P_Send response"
      "pub t' = P_Select" "sub t' = sub t" "cancelled t' = cancelled t" "eg_err t' = eg_err t"
      "trace t' = trace t @ [(Publisher, SendResponse response None)]"
  | response err where "a = PublishSend (Some err)" "pub t = P_Send response"
      "pub t' = P_Ret (Some (Errorf ''error from Publish.Send: %s'' [err]))" "sub t' = sub t"
      "cancelled t' = (cancelled t \<or> eg_err t = None)"
      "eg_err t' = (case eg_err t of None \<Rightarrow> Some (Errorf ''error from Publish.Send: %s'' [err])
                    | Some e \<Rightarrow> Some e)"
      "trace t' = trace t @ [(Publisher, SendResponse response (Some err))]"
  | "a = SubscribeOpen None" "sub t = S_Open"
      "pub t' = pub t" "sub t' = S_SendReq" "cancelled t' = cancelled t" "eg_err t' = eg_err t"
      "trace t' = trace t @
         [(Subscriber, Open (subscribe_ctx Background (flag_username fl) (flag_password fl)) None)]"
  | err where "a = SubscribeOpen (Some err)" "sub t = S_Open"
      "pub t' = pub t" "sub t' = S_Ret (Some (Errorf ''error from Subscribe: %s'' [err]))"
      "cancelled t' = (cancelled t \<or> eg_err t = None)"
      "eg_err t' = (case eg_err t of None \<Rightarrow> Some (Errorf ''error from Subscribe: %s'' [err])
                    | Some e \<Rightarrow> Some e)"
      "trace t' = trace t @
         [(Subscriber, Open (subscribe_ctx Background (flag_username fl) (flag_password fl)) (Some err))]"
  | "a = SubscribeSend None" "sub t = S_SendReq"
      "pub t' = pub t" "sub t' = S_Recv" "cancelled t' = cancelled t" "eg_err t' = eg_err t"
      "trace t' = trace t @
         [(Subscriber, SendRequest (subscribe_request (flag_target_value fl) (flag_subscribe fl)) None)]"
  | err where "a = SubscribeSend (Some err)" "sub t = S_SendReq"
      "pub t' = pub t" "sub t' = S_Ret (Some (Errorf ''error sending SubscribeRequest: %s'' [err]))"
      "cancelled t' = (cancelled t \<or> eg_err t = None)"
      "eg_err t' = (case eg_err t of None \<Rightarrow> Some (Errorf ''error sending SubscribeRequest: %s'' [err])
                    | Some e \<Rightarrow> Some e)"
      "trace t' = trace t @
         [(Subscriber, SendRequest (subscribe_request (flag_target_value fl) (flag_subscribe fl)) (Some err))]"
  | resp where "a = SubscribeRecv (Inr resp)" "sub t = S_Recv"
      "pub t' = pub t" "sub t' = S_Select resp" "cancelled t' = cancelled t" "eg_err t' = eg_err t"
      "trace t' = trace t @ [(Subscriber, Recv (Inr resp))]"
  | err where "a = SubscribeRecv (Inl err)" "sub t = S_Recv"
      "pub t' = pub t" "sub t' = S_Ret (Some (Errorf ''error from Subscribe.Recv: %s'' [err]))"
      "cancelled t' = (cancelled t \<or> eg_err t = None)"
      "eg_err t' = (case eg_err t of None \<Rightarrow> Some (Errorf ''error from Subscribe.Recv: %s'' [err])
                    | Some e \<Rightarrow> Some e)"
      "trace t' = trace t @ [(Subscriber, Recv (Inl err))]"
  | resp where "a = SubscribeDone" "sub t = S_Select resp" "cancelled t"
      "pub t' = pub t" "sub t' = S_Ret (Some Canceled)" "cancelled t'"
      "eg_err t' = (case eg_err t of None \<Rightarrow> Some Canceled | Some e \<Rightarrow> Some e)"
      "trace t' = trace t @ [(Subscriber, CtxDone)]"
proof (cases a)
  case (PublishOpen r)
  with assms show ?thesis
    by (cases "pub t"; cases r) (auto intro: that(1,2))
next
  case PublishDone
  with assms show ?thesis
    by (cases "pub t") (auto split: if_splits intro: that(3))
next
  case Handoff
  with assms show ?thesis
    by (cases "pub t"; cases "sub t") (auto intro: that(4))
next
  case (PublishSend r)
  with assms show ?thesis
    by (cases "pub t"; cases r) (auto intro: that(5,6))
next
  case (SubscribeOpen r)
  with assms show ?thesis
    by (cases "sub t"; cases r) (auto intro: that(7,8))
next
  case (SubscribeSend r)
  with assms show ?thesis
    by (cases "sub t"; cases r) (auto intro: that(9,10))
next
  case (SubscribeRecv r)
  with assms show ?thesis
    by (cases "sub t"; cases r) (auto intro: that(11,12))
next
  case SubscribeDone
  with assms show ?thesis
    by (cases "sub t") (auto split: if_splits intro: that(13))
qed

subsection \<open>How the goroutines return\<close>

lemma reachable_returns:
  assumes "run fl as new_iter = Some s"
  shows "error_exits s \<and> (cancelled s \<longleftrightarrow> pub_returned s \<or> sub_returned s)
         \<and> (eg_err s = None \<longleftrightarrow> \<not> cancelled s)"
  using assms
proof (induct rule: reachable_induct)
  case new_iter
  show ?case by (simp add: new_iter_def error_exits_def pub_returned_def sub_returned_def)
next
  case (step bs a t t')
  from step(3) step(2) show ?case
    by (cases rule: step_cases)
       (simp_all add: error_exits_def pub_returned_def sub_returned_def split: option.splits)
qed

lemma closing_run_result:
  "run relay_flags (closing_run @ [PublishDone]) new_iter =
     Some \<lparr>pub = P_Ret (Some Canceled),
           sub = S_Ret (Some (Errorf ''error from Subscribe.Recv: %s'' [EOF])),
           cancelled = True,
           eg_err = Some (Errorf ''error from Subscribe.Recv: %s'' [EOF]),
           trace =
             [(Publisher, Open Background None),
              (Subscriber, Open (subscribe_ctx Background ''admin'' []) None),
              (Subscriber, SendRequest (subscribe_request (flag_target_value relay_flags)
                 (flag_subscribe relay_flags)) None),
              (Subscriber, Recv (Inl EOF)),
              (Publisher, CtxDone)]\<rparr>"
  by (simp add: closing_run_def new_iter_def emit_def publish_return_def subscribe_return_def
      eg_Go_return_def ctx_Err_def relay_flags_def)

text \<open>
  Claim C8. Neither goroutine returns \<^verbatim>\<open>nil\<close>: in every state an iteration can reach, a
  \<^verbatim>\<open>publish\<close> that has returned has returned the cancellation reason of the context or the
  wrapped error of \<^verbatim>\<open>client.Publish\<close> or \<^verbatim>\<open>stream.Send\<close>, and a \<^verbatim>\<open>subscribe\<close> that
  has returned has returned the cancellation reason or the wrapped error of
  \<^verbatim>\<open>client.Subscribe\<close>, of the \<^verbatim>\<open>stream.Send\<close> of the request, or of \<^verbatim>\<open>stream.Recv\<close>
  (the end of the stream, \<^verbatim>\<open>io.EOF\<close>, included).
\<close>

theorem sessions_never_succeed:
  "run fl as new_iter = Some s \<Longrightarrow> error_exits s"
  by (simp add: reachable_returns)

theorem sessions_never_succeed_witness:
  "\<exists>s. run relay_flags (closing_run @ [PublishDone]) new_iter = Some s \<and> error_exits s
       \<and> pub s = P_Ret (Some Canceled)
       \<and> sub s = S_Ret (Some (Errorf ''error from Subscribe.Recv: %s'' [EOF]))"
  using sessions_never_succeed[OF closing_run_result] closing_run_result by simp

subsection \<open>The relay\<close>

lemma received_append: "received (t @ u) = received t @ received u"
  by (induction t rule: received.induct) simp_all

lemma published_append: "published (t @ u) = published t @ published u"
  by (induction t rule: published.induct) simp_all

lemma taken_append: "taken (t @ u) = taken t @ taken u"
  by (induction t rule: taken.induct) simp_all

lemma sent_append: "sent (t @ u) = sent t @ sent u"
  by (induction t rule: sent.induct) simp_all

lemma requests_append: "requests (t @ u) = requests t @ requests u"
  by (induction t rule: requests.induct) simp_all

lemma publish_ops_append: "publish_ops (t @ u) = (publish_ops t \<and> publish_ops u)"
  by (induction t rule: publish_ops.induct) simp_all

lemma opens_append: "opens w (t @ u) = opens w t @ opens w u"
  by (induction w t rule: opens.induct) simp_all

lemmas trace_appends = received_append published_append taken_append sent_append
  requests_append publish_ops_append opens_append

lemma reachable_relay:
  assumes "run fl as new_iter = Some s"
  shows "prefix (published (trace s)) (received (trace s))
         \<and> (\<not> pub_returned s \<longrightarrow> received (trace s) = published (trace s) @ in_hand s)"
  using assms
proof (induct rule: reachable_induct)
  case new_iter
  show ?case by (simp add: new_iter_def pub_returned_def in_hand_def)
next
  case (step bs a t t')
  from reachable_returns[OF step(1)]
  have c: "cancelled t \<longleftrightarrow> pub_returned t \<or> sub_returned t" by simp
  from step(3) step(2) c show ?case
    by (cases rule: step_cases)
       (auto simp add: pub_returned_def sub_returned_def in_hand_def trace_appends)
qed

lemma drain_catches_up:
  assumes "\<not> pub_returned s" and "received (trace s) = published (trace s) @ in_hand s"
  shows "\<exists>s'. run fl (drain s) s = Some s' \<and> cancelled s' = cancelled s
           \<and> received (trace s') = received (trace s)
           \<and> published (trace s') = received (trace s)"
  using assms
  by (cases "pub s"; cases "sub s")
     (simp_all add: drain_def in_hand_def pub_returned_def trace_appends)

lemma relay_run_result:
  "run relay_flags relay_run new_iter =
     Some \<lparr>pub = P_Send 8, sub = S_Recv, cancelled = False, eg_err = None,
           trace =
             [(Subscriber, Open (subscribe_ctx Background ''admin'' []) None),
              (Subscriber, SendRequest (subscribe_request (flag_target_value relay_flags)
                 (flag_subscribe relay_flags)) None),
              (Subscriber, Recv (Inr 7)),
              (Publisher, Open Background None),
              (Subscriber, ChanSend 7), (Publisher, ChanRecv 7),
              (Subscriber, Recv (Inr 8)),
              (Publisher, SendResponse 7 None),
              (Subscriber, ChanSend 8), (Publisher, ChanRecv 8)]\<rparr>"
  by (simp add: relay_run_def new_iter_def emit_def relay_flags_def)

text \<open>
  C1. In every state an iteration can reach, what \<^verbatim>\<open>publish\<close> has sent to the collector is
  a prefix of what \<^verbatim>\<open>subscribe\<close> has received from the target: the same messages in the
  same order, none twice and none left out in between. While the context is not cancelled,
  the messages received are the messages sent followed by the at most two messages in
  hand, and if the collector accepts them, \<^verbatim>\<open>publish\<close> sends these too: after the steps
  of \<open>drain\<close> it has sent exactly the messages received.
\<close>

theorem relay_identity:
  assumes "run fl as new_iter = Some s"
  shows "prefix (published (trace s)) (received (trace s))
       \<and> (\<not> cancelled s \<longrightarrow>
            received (trace s) = published (trace s) @ in_hand s
          \<and> (\<exists>s'. run fl (drain s) s = Some s' \<and> \<not> cancelled s'
                 \<and> received (trace s') = received (trace s)
                 \<and> published (trace s') = received (trace s)))"
proof -
  from reachable_returns[OF assms]
  have c: "cancelled s \<longleftrightarrow> pub_returned s \<or> sub_returned s" by simp
  from reachable_relay[OF assms]
  have p: "prefix (published (trace s)) (received (trace s))"
    and r: "\<not> pub_returned s \<Longrightarrow> received (trace s) = published (trace s) @ in_hand s"
    by simp_all
  show ?thesis
  proof (cases "cancelled s")
    case True
    with p show ?thesis by simp
  next
    case False
    with c have n: "\<not> pub_returned s" by simp
    from drain_catches_up[OF n r[OF n], of fl] False p r[OF n] show ?thesis by auto
  qed
qed

theorem relay_identity_witness:
  "\<exists>s. run relay_flags relay_run new_iter = Some s \<and> \<not> cancelled s
       \<and> received (trace s) = [7, 8] \<and> published (trace s) = [7] \<and> in_hand s = [8]
       \<and> (\<exists>s'. run relay_flags (drain s) s = Some s' \<and> published (trace s') = [7, 8])"
  using relay_identity[OF relay_run_result] relay_run_result
  by (simp add: in_hand_def drain_def emit_def)

subsection \<open>The request, the credentials and the publisher\<close>






lemma Pairs_username_password:
  "Pairs [''username'', u, ''password'', p] = [''username'' \<mapsto> [u], ''password'' \<mapsto> [p]]"
  by (simp add: Pairs_def)

lemma reachable_opens:
  assumes "run fl as new_iter = Some s"
  shows "opens Subscriber (trace s) =
           (if sub s = S_Open then []
            else [subscribe_ctx Background (flag_username fl) (flag_password fl)])
         \<and> opens Publisher (trace s) = (if pub s = P_Open then [] else [Background])"
  using assms
proof (induct rule: reachable_induct)
  case new_iter
  show ?case by (simp add: new_iter_def)
next
  case (step bs a t t')
  from step(3) step(2) show ?case
    by (cases rule: step_cases) (simp_all add: trace_appends)
qed

text \<open>
  C4. \<^verbatim>\<open>subscribe\<close> opens its stream once, with a context whose outgoing metadata is the
  pair \<^verbatim>\<open>username\<close>, \<^verbatim>\<open>password\<close> when the user name is not empty (the password as it
  is, empty or not) and with no metadata when the user name is empty; \<^verbatim>\<open>publish\<close> opens
  its stream once, with a context without metadata.
\<close>

theorem credentials_metadata:
  assumes "run fl as new_iter = Some s"
  shows "map OutgoingMD (opens Subscriber (trace s)) =
           (if sub s = S_Open then []
            else [if flag_username fl \<noteq> []
                  then Some [''username'' \<mapsto> [flag_username fl],
                             ''password'' \<mapsto> [flag_password fl]]
                  else None])
       \<and> map OutgoingMD (opens Publisher (trace s)) = (if pub s = P_Open then [] else [None])"
proof -
  have a: "OutgoingMD (subscribe_ctx Background (flag_username fl) (flag_password fl)) =
             (if flag_username fl \<noteq> []
              then Some [''username'' \<mapsto> [flag_username fl], ''password'' \<mapsto> [flag_password fl]]
              else None)"
    by (simp add: subscribe_ctx_def NewOutgoingContext_def Background_def Pairs_username_password)
  have b: "OutgoingMD Background = None" by (simp add: Background_def)
  from reachable_opens[OF assms] a b show ?thesis by simp
qed

theorem credentials_metadata_witness:
  "\<exists>s. run relay_flags relay_run new_iter = Some s
       \<and> map OutgoingMD (opens Subscriber (trace s)) =
           [Some [''username'' \<mapsto> [''admin''], ''password'' \<mapsto> [[]]]]
       \<and> map OutgoingMD (opens Publisher (trace s)) = [None]"
  using credentials_metadata[OF relay_run_result] relay_run_result
  by (simp add: relay_flags_def)

lemma reachable_publish:
  assumes "run fl as new_iter = Some s"
  shows "publish_ops (trace s)
         \<and> taken (trace s) = sent (trace s) @ (case pub s of P_Send response \<Rightarrow> [response] | _ \<Rightarrow> [])"
  using assms
proof (induct rule: reachable_induct)
  case new_iter
  show ?case by (simp add: new_iter_def)
next
  case (step bs a t t')
  from step(3) step(2) show ?case
    by (cases rule: step_cases) (simp_all add: trace_appends)
qed

text \<open>
  C9. Every step of \<^verbatim>\<open>publish\<close> is the opening of its stream, a receive from the channel,
  a send on the stream, or the \<^verbatim>\<open>ctx.Done()\<close> branch: it never receives from the stream.
  The messages it has passed to \<^verbatim>\<open>stream.Send\<close> are the messages it has taken from the
  channel, in the same order and as they were, but for the one it holds and has not yet
  sent.
\<close>

theorem publish_forwards:
  "run fl as new_iter = Some s \<Longrightarrow>
     publish_ops (trace s)
     \<and> taken (trace s) = sent (trace s) @ (case pub s of P_Send response \<Rightarrow> [response] | _ \<Rightarrow> [])"
  by (rule reachable_publish)

theorem publish_forwards_witness:
  "\<exists>s. run relay_flags relay_run new_iter = Some s \<and> publish_ops (trace s)
       \<and> taken (trace s) = [7, 8] \<and> sent (trace s) = [7] \<and> pub s = P_Send 8"
  using publish_forwards[OF relay_run_result] relay_run_result by simp

subsection \<open>Cancellation\<close>

lemma only_PublishDone:
  assumes "pub s = P_Select" and "sub_returned s" and "cancelled s"
  shows "step fl a s \<noteq> None \<longleftrightarrow> a = PublishDone"
  using assms by (cases a; cases "sub s") (simp_all add: sub_returned_def)

lemma only_SubscribeDone:
  assumes "sub s = S_Select resp" and "pub_returned s" and "cancelled s"
  shows "step fl a s \<noteq> None \<longleftrightarrow> a = SubscribeDone"
  using assms by (cases a; cases "pub s") (simp_all add: pub_returned_def)

lemma Wait_enabled:
  "main_step fl Wait ms \<noteq> None \<longleftrightarrow> pub_returned (current ms) \<and> sub_returned (current ms)"
  by (cases "pub (current ms)"; cases "sub (current ms)")
     (simp_all add: main_step_def pub_returned_def sub_returned_def)

lemma closing_run_prefix_result:
  "run relay_flags closing_run new_iter =
     Some \<lparr>pub = P_Select,
           sub = S_Ret (Some (Errorf ''error from Subscribe.Recv: %s'' [EOF])),
           cancelled = True,
           eg_err = Some (Errorf ''error from Subscribe.Recv: %s'' [EOF]),
           trace =
             [(Publisher, Open Background None),
              (Subscriber, Open (subscribe_ctx Background ''admin'' []) None),
              (Subscriber, SendRequest (subscribe_request (flag_target_value relay_flags)
                 (flag_subscribe relay_flags)) None),
              (Subscriber, Recv (Inl EOF))]\<rparr>"
  by (simp add: closing_run_def new_iter_def emit_def subscribe_return_def
      eg_Go_return_def relay_flags_def)

lemma step_after_cancel:
  assumes "step fl a t = Some t'" and "cancelled t"
      and "cancelled t \<longleftrightarrow> pub_returned t \<or> sub_returned t"
  shows "steps_left t' < steps_left t \<and> cancelled t'"
  using assms
  by (cases rule: step_cases)
     (simp_all add: steps_left_def pub_returned_def sub_returned_def)

lemma run_after_cancel:
  assumes "run fl bs s = Some s'" and "run fl as new_iter = Some s" and "cancelled s"
  shows "length bs + steps_left s' \<le> steps_left s"
  using assms
proof (induction bs arbitrary: s as)
  case Nil
  then show ?case by simp
next
  case (Cons b bs)
  from Cons.prems(1) obtain t where t: "step fl b s = Some t" "run fl bs t = Some s'"
    by (auto split: option.splits)
  from reachable_returns[OF Cons.prems(2)]
  have c: "cancelled s \<longleftrightarrow> pub_returned s \<or> sub_returned s" by simp
  from step_after_cancel[OF t(1) Cons.prems(3) c]
  have d: "steps_left t < steps_left s" "cancelled t" by simp_all
  from t(1) Cons.prems(2) have "run fl (as @ [b]) new_iter = Some t" by (simp add: run_snoc)
  from Cons.IH[OF t(2) this d(2)] d(1) show ?case by simp
qed

lemma steps_left_cancelled:
  assumes "pub_returned s \<or> sub_returned s"
  shows "steps_left s \<le> 4"
  using assms
  by (cases "pub s"; cases "sub s") (simp_all add: steps_left_def pub_returned_def sub_returned_def)

lemma cancelled_progress:
  assumes "cancelled s" and "\<not> (pub_returned s \<and> sub_returned s)"
  shows "\<exists>a. step fl a s \<noteq> None"
proof (cases "pub_returned s")
  case False
  show ?thesis
  proof (cases "pub s")
    case P_Open
    then have "step fl (PublishOpen None) s \<noteq> None" by simp
    then show ?thesis ..
  next
    case P_Select
    with assms(1) have "step fl PublishDone s \<noteq> None" by simp
    then show ?thesis ..
  next
    case (P_Send response)
    then have "step fl (PublishSend None) s \<noteq> None" by simp
    then show ?thesis ..
  next
    case (P_Ret r)
    with False show ?thesis by (simp add: pub_returned_def)
  qed
next
  case True
  with assms(2) have n: "\<not> sub_returned s" by simp
  show ?thesis
  proof (cases "sub s")
    case S_Open
    then have "step fl (SubscribeOpen None) s \<noteq> None" by simp
    then show ?thesis ..
  next
    case S_SendReq
    then have "step fl (SubscribeSend None) s \<noteq> None" by simp
    then show ?thesis ..
  next
    case S_Recv
    then have "step fl (SubscribeRecv (Inl EOF)) s \<noteq> None" by simp
    then show ?thesis ..
  next
    case (S_Select resp)
    with assms(1) have "step fl SubscribeDone s \<noteq> None" by simp
    then show ?thesis ..
  next
    case (S_Ret r)
    with n show ?thesis by (simp add: sub_returned_def)
  qed
qed

text \<open>
  C10. In every state an iteration can reach, the context is cancelled exactly when one
  of the two goroutines has returned. A goroutine that is at its \<^verbatim>\<open>select\<close> when the
  context is cancelled observes it there: the \<^verbatim>\<open>ctx.Done()\<close> branch is the only step the
  iteration can make, and with it the goroutine returns \<^verbatim>\<open>ctx.Err()\<close>. Once the context
  is cancelled, a goroutine that has not returned can always make a step, and the
  iteration makes at most four more steps: the calls on the streams that are still to
  come, then the \<^verbatim>\<open>select\<close>. \<^verbatim>\<open>eg.Wait()\<close> returns exactly when both goroutines have
  returned.
\<close>

theorem cancellation_propagates:
  assumes "run fl as new_iter = Some s"
  shows "(cancelled s \<longleftrightarrow> pub_returned s \<or> sub_returned s)
       \<and> (cancelled s \<and> pub s = P_Select \<longrightarrow>
            (\<exists>s'. step fl PublishDone s = Some s' \<and> pub s' = P_Ret (Some Canceled))
          \<and> (\<forall>a. step fl a s \<noteq> None \<longrightarrow> a = PublishDone))
       \<and> (cancelled s \<and> (\<exists>resp. sub s = S_Select resp) \<longrightarrow>
            (\<exists>s'. step fl SubscribeDone s = Some s' \<and> sub s' = S_Ret (Some Canceled))
          \<and> (\<forall>a. step fl a s \<noteq> None \<longrightarrow> a = SubscribeDone))
       \<and> (cancelled s \<and> \<not> (pub_returned s \<and> sub_returned s) \<longrightarrow>
            (\<exists>a. step fl a s \<noteq> None))
       \<and> (cancelled s \<longrightarrow>
            steps_left s \<le> 4
          \<and> (\<forall>bs s'. run fl bs s = Some s' \<longrightarrow> length bs + steps_left s' \<le> steps_left s))
       \<and> (\<forall>ms. current ms = s \<longrightarrow>
            (main_step fl Wait ms \<noteq> None \<longleftrightarrow> pub_returned s \<and> sub_returned s))"
proof -
  from reachable_returns[OF assms]
  have c: "cancelled s \<longleftrightarrow> pub_returned s \<or> sub_returned s" by simp
  have p: "(\<exists>s'. step fl PublishDone s = Some s' \<and> pub s' = P_Ret (Some Canceled))
           \<and> (\<forall>a. step fl a s \<noteq> None \<longrightarrow> a = PublishDone)"
    if "cancelled s" "pub s = P_Select"
  proof -
    from that c have "sub_returned s" by (simp add: pub_returned_def)
    with that only_PublishDone[of s fl] show ?thesis by simp
  qed
  have q: "(\<exists>s'. step fl SubscribeDone s = Some s' \<and> sub s' = S_Ret (Some Canceled))
           \<and> (\<forall>a. step fl a s \<noteq> None \<longrightarrow> a = SubscribeDone)"
    if "cancelled s" "sub s = S_Select resp" for resp
  proof -
    from that c have "pub_returned s" by (simp add: sub_returned_def)
    with that only_SubscribeDone[of s resp fl] show ?thesis by simp
  qed
  have g: "\<exists>a. step fl a s \<noteq> None" if "cancelled s" "\<not> (pub_returned s \<and> sub_returned s)"
    using cancelled_progress[OF that] .
  have b: "steps_left s \<le> 4
          \<and> (\<forall>bs s'. run fl bs s = Some s' \<longrightarrow> length bs + steps_left s' \<le> steps_left s)"
    if "cancelled s"
    using that c steps_left_cancelled[of s] run_after_cancel[OF _ assms that] by simp
  from c p q g b Wait_enabled[of fl] show ?thesis by blast
qed

theorem cancellation_propagates_witness:
  "\<exists>s. run relay_flags closing_run new_iter = Some s
       \<and> cancelled s \<and> sub_returned s \<and> pub s = P_Select \<and> steps_left s = 1
       \<and> (\<exists>s'. step relay_flags PublishDone s = Some s' \<and> pub s' = P_Ret (Some Canceled))
       \<and> step relay_flags (PublishSend None) s = None \<and> step relay_flags Handoff s = None"
  using cancellation_propagates[OF closing_run_prefix_result] closing_run_prefix_result
  by (simp add: sub_returned_def steps_left_def)

subsection \<open>The retry loop\<close>

lemma proc_run_snoc:
  "proc_run fl (as @ [a]) p =
     (case proc_run fl as p of None \<Rightarrow> None | Some q \<Rightarrow> proc_step fl a q)"
  by (induction as arbitrary: p) (auto split: option.splits)

lemma proc_run_append:
  "proc_run fl (as @ bs) p =
     (case proc_run fl as p of None \<Rightarrow> None | Some q \<Rightarrow> proc_run fl bs q)"
  by (induction as arbitrary: p) (auto split: option.splits)

lemma proc_run_invariant:
  assumes "proc_run fl as p0 = Some p" and "Q p0"
      and "\<And>a q q'. Q q \<Longrightarrow> proc_step fl a q = Some q' \<Longrightarrow> Q q'"
  shows "Q p"
  using assms(1,2)
proof (induction as arbitrary: p0)
  case Nil
  then show ?case by simp
next
  case (Cons a as)
  then show ?case using assms(3) by (auto split: option.splits)
qed

lemma both_returned_error:
  assumes "run fl bs new_iter = Some s" and "pub_returned s" and "sub_returned s"
  shows "\<exists>err. eg_err s = Some err"
  using reachable_returns[OF assms(1)] assms(2,3) by auto

lemma main_step_Wait:
  assumes "run fl bs new_iter = Some (current ms)"
      and "pub_returned (current ms)" and "sub_returned (current ms)"
  shows "\<exists>err. eg_err (current ms) = Some err
           \<and> main_step fl Wait ms =
               Some \<lparr>current = new_iter, started = Suc (started ms),
                     logged = logged ms @ [(''encountered error, retrying: %s'', err)]\<rparr>"
proof -
  from both_returned_error[OF assms] obtain err where e: "eg_err (current ms) = Some err" ..
  from assms(2,3) e show ?thesis
    by (cases "pub (current ms)"; cases "sub (current ms)")
       (simp_all add: main_step_def pub_returned_def sub_returned_def)
qed

lemma reachable_new_iter: "\<exists>bs. run fl bs new_iter = Some new_iter"
  by (rule exI[of _ "[]"]) simp

lemma main_step_invariant:
  assumes "main_step fl a ms = Some ms'"
      and "\<exists>bs. run fl bs new_iter = Some (current ms)"
      and "started ms = Suc (length (logged ms))"
  shows "(\<exists>bs. run fl bs new_iter = Some (current ms')) \<and> started ms' = Suc (length (logged ms'))"
proof (cases a)
  case (Session b)
  with assms(1) have st: "step fl b (current ms) = Some (current ms')"
    and eq: "started ms' = started ms" "logged ms' = logged ms"
    by (auto simp add: main_step_def split: option.splits)
  from assms(2) obtain bs where "run fl bs new_iter = Some (current ms)" ..
  with st have "run fl (bs @ [b]) new_iter = Some (current ms')" by (simp add: run_snoc)
  with eq assms(3) show ?thesis by auto
next
  case Wait
  with assms(1) have r: "pub_returned (current ms)" "sub_returned (current ms)"
    using Wait_enabled[of fl ms] by simp_all
  from assms(2) obtain bs where bs: "run fl bs new_iter = Some (current ms)" ..
  from main_step_Wait[OF bs r] assms(1) Wait
  have "current ms' = new_iter" "started ms' = Suc (started ms)"
    "length (logged ms') = Suc (length (logged ms))"
    by auto
  with assms(3) reachable_new_iter[of fl] show ?thesis by simp
qed

lemma proc_run_Looping:
  assumes "proc_run fl as (main_start os fl) = Some (p :: 'm proc)"
      and "fst (startup os fl) = None"
  shows "\<exists>ms. p = Looping ms \<and> (\<exists>bs. run fl bs new_iter = Some (current ms))
           \<and> started ms = Suc (length (logged ms))"
  using assms(1)
proof (rule proc_run_invariant)
  from assms(2)
  show "\<exists>ms. main_start os fl = Looping ms \<and> (\<exists>bs. run fl bs new_iter = Some (current ms))
           \<and> started ms = Suc (length (logged ms))"
    by (simp add: main_start_def reachable_new_iter)
next
  fix a and q q' :: "'m proc"
  assume q: "\<exists>ms. q = Looping ms \<and> (\<exists>bs. run fl bs new_iter = Some (current ms))
           \<and> started ms = Suc (length (logged ms))"
    and st: "proc_step fl a q = Some q'"
  from q obtain ms where ms: "q = Looping ms" "\<exists>bs. run fl bs new_iter = Some (current ms)"
    "started ms = Suc (length (logged ms))" by blast
  from st ms(1) obtain ms' where ms': "q' = Looping ms'" "main_step fl a ms = Some ms'"
    by (auto simp add: proc_step_def split: option.splits)
  from main_step_invariant[OF ms'(2) ms(2,3)] ms'(1)
  show "\<exists>ms. q' = Looping ms \<and> (\<exists>bs. run fl bs new_iter = Some (current ms))
           \<and> started ms = Suc (length (logged ms))"
    by simp
qed

lemma failing_iteration_step:
  assumes "current ms = new_iter"
  shows "proc_run fl failing_iteration (Looping ms) =
           Some (Looping \<lparr>current = new_iter, started = Suc (started ms),
                          logged = logged ms @
                            [(''encountered error, retrying: %s'',
                              Errorf ''error from Publish: %s'' [Underlying ''unavailable''])]\<rparr>)"
  using assms
  by (simp add: failing_iteration_def proc_step_def main_step_def new_iter_def emit_def
      publish_return_def subscribe_return_def eg_Go_return_def)

lemma iterations_run:
  assumes "current ms = new_iter"
  shows "\<exists>ms'. proc_run fl (iterations n) (Looping ms) = Some (Looping ms')
           \<and> current ms' = new_iter \<and> started ms' = started ms + n
           \<and> length (logged ms') = length (logged ms) + n"
  using assms
proof (induction n arbitrary: ms)
  case 0
  then show ?case by simp
next
  case (Suc n)
  let ?ms1 = "\<lparr>current = new_iter, started = Suc (started ms),
                logged = logged ms @
                  [(''encountered error, retrying: %s'',
                    Errorf ''error from Publish: %s'' [Underlying ''unavailable''])]\<rparr> :: 'a main_state"
  have "current ?ms1 = new_iter" by simp
  from Suc.IH[OF this] obtain ms' where
    "proc_run fl (iterations n) (Looping ?ms1) = Some (Looping ms')"
    "current ms' = new_iter" "started ms' = started ?ms1 + n"
    "length (logged ms') = length (logged ?ms1) + n"
    by blast
  with failing_iteration_step[OF Suc.prems, of fl] show ?case
    by (simp add: proc_run_append)
qed

text \<open>
  C7. Once start-up has succeeded, the process is in the loop after any number of steps:
  no step leaves it. The number of iterations started is one more than the number of
  errors logged. When both goroutines of the current iteration have returned, the errgroup
  holds an error, \<^verbatim>\<open>eg.Wait()\<close> returns it, it is logged, and the next iteration starts in
  the state of a new iteration: a new context, not cancelled, a new errgroup, and both
  goroutines at their first statement. There is no bound on the number of iterations: from
  the start of an iteration, \<open>n\<close> failing iterations lead to the start of the iteration
  \<open>n\<close> places later.
\<close>

theorem retry_forever:
  assumes "proc_run fl as (main_start os fl) = Some p" and "fst (startup os fl) = None"
  shows "\<exists>ms. p = Looping ms
           \<and> started ms = Suc (length (logged ms))
           \<and> (pub_returned (current ms) \<and> sub_returned (current ms) \<longrightarrow>
                (\<exists>err. eg_err (current ms) = Some err
                   \<and> proc_step fl Wait p =
                       Some (Looping \<lparr>current = new_iter, started = Suc (started ms),
                               logged = logged ms @ [(''encountered error, retrying: %s'', err)]\<rparr>)))
           \<and> (current ms = new_iter \<longrightarrow>
                (\<exists>ms'. proc_run fl (iterations n) p = Some (Looping ms')
                   \<and> started ms' = started ms + n))"
proof -
  from proc_run_Looping[OF assms] obtain ms bs where ms: "p = Looping ms"
    "run fl bs new_iter = Some (current ms)" "started ms = Suc (length (logged ms))"
    by blast
  have w: "\<exists>err. eg_err (current ms) = Some err
             \<and> proc_step fl Wait p =
                 Some (Looping \<lparr>current = new_iter, started = Suc (started ms),
                         logged = logged ms @ [(''encountered error, retrying: %s'', err)]\<rparr>)"
    if "pub_returned (current ms)" "sub_returned (current ms)"
    using main_step_Wait[OF ms(2) that] ms(1) by (auto simp add: proc_step_def)
  have i: "\<exists>ms'. proc_run fl (iterations n) p = Some (Looping ms')
             \<and> started ms' = started ms + n"
    if "current ms = new_iter"
    using iterations_run[OF that, of fl n] ms(1) by auto
  from ms(1,3) w i show ?thesis by blast
qed

lemma startup_relay: "fst (startup demo_sys relay_flags) = None"
  by (simp add: startup_def newTLSConfig_def relay_flags_def demo_sys_def)

lemma main_start_relay:
  "main_start demo_sys relay_flags = Looping \<lparr>current = new_iter, started = 1, logged = []\<rparr>"
  by (simp add: main_start_def startup_relay)

lemma relay_flags_credentials:
  "flag_username relay_flags = ''admin''" "flag_password relay_flags = []"
  by (simp_all add: relay_flags_def)

lemma failing_run_result:
  "proc_run relay_flags
     [Session (PublishOpen (Some (Underlying ''unavailable''))),
      Session (SubscribeOpen (Some EOF))]
     (main_start demo_sys relay_flags) =
   Some (Looping
     \<lparr>current =
        \<lparr>pub = P_Ret (Some (Errorf ''error from Publish: %s'' [Underlying ''unavailable''])),
         sub = S_Ret (Some (Errorf ''error from Subscribe: %s'' [EOF])),
         cancelled = True,
         eg_err = Some (Errorf ''error from Publish: %s'' [Underlying ''unavailable'']),
         trace =
           [(Publisher, Open Background (Some (Underlying ''unavailable''))),
            (Subscriber, Open (subscribe_ctx Background ''admin'' []) (Some EOF))]\<rparr>,
      started = 1, logged = []\<rparr> :: nat proc)"
  by (simp add: main_start_relay proc_step_def main_step_def new_iter_def emit_def
      publish_return_def subscribe_return_def eg_Go_return_def relay_flags_credentials)

theorem retry_forever_witness:
  "(\<exists>ms. proc_run relay_flags
            [Session (PublishOpen (Some (Underlying ''unavailable''))),
             Session (SubscribeOpen (Some EOF)), Wait]
            (main_start demo_sys relay_flags) = Some (Looping ms)
         \<and> current ms = (new_iter :: nat iter) \<and> started ms = 2
         \<and> logged ms =
             [(''encountered error, retrying: %s'',
               Errorf ''error from Publish: %s'' [Underlying ''unavailable''])])
   \<and> (\<exists>ms. proc_run relay_flags (iterations 3) (main_start demo_sys relay_flags) =
               Some (Looping ms :: nat proc)
         \<and> started ms = 4)"
proof -
  have e: "proc_run relay_flags [] (main_start demo_sys relay_flags) =
             Some (Looping \<lparr>current = new_iter, started = 1, logged = []\<rparr> :: nat proc)"
    by (simp add: main_start_relay)
  from retry_forever[OF failing_run_result startup_relay, of 0]
  have "proc_step relay_flags Wait (Looping
     \<lparr>current =
        \<lparr>pub = P_Ret (Some (Errorf ''error from Publish: %s'' [Underlying ''unavailable''])),
         sub = S_Ret (Some (Errorf ''error from Subscribe: %s'' [EOF])),
         cancelled = True,
         eg_err = Some (Errorf ''error from Publish: %s'' [Underlying ''unavailable'']),
         trace =
           [(Publisher, Open Background (Some (Underlying ''unavailable''))),
            (Subscriber, Open (subscribe_ctx Background ''admin'' []) (Some EOF))]\<rparr>,
      started = 1, logged = []\<rparr> :: nat proc) =
    Some (Looping \<lparr>current = new_iter, started = 2,
            logged = [(''encountered error, retrying: %s'',
               Errorf ''error from Publish: %s'' [Underlying ''unavailable''])]\<rparr>)"
    by (simp add: pub_returned_def sub_returned_def)
  with failing_run_result
  have a: "proc_run relay_flags
            ([Session (PublishOpen (Some (Underlying ''unavailable''))),
             Session (SubscribeOpen (Some EOF))] @ [Wait])
            (main_start demo_sys relay_flags) =
          Some (Looping \<lparr>current = (new_iter :: nat iter), started = 2,
            logged = [(''encountered error, retrying: %s'',
               Errorf ''error from Publish: %s'' [Underlying ''unavailable''])]\<rparr>)"
    by (simp only: proc_run_snoc option.case)
  from retry_forever[OF e startup_relay, of 3]
  have b: "\<exists>ms. proc_run relay_flags (iterations 3) (main_start demo_sys relay_flags) =
               Some (Looping ms :: nat proc) \<and> started ms = 4"
    using e by simp
  from a b show ?thesis by simp
qed

end
